theory Spec2Isabelle
  imports Complex_Main "HOL-Library.Word"
begin

section \<open>JavaScript strings\<close>

text \<open>
  A JavaScript string is a sequence of 16-bit UTF-16 code units. ASCII literals of the
  source are written with \<open>of_ascii\<close>; code units beyond ASCII are written as numerals.
\<close>

type_synonym code_unit = "16 word"
type_synonym jsstring = "code_unit list"

definition of_ascii :: "string \<Rightarrow> jsstring" where
  "of_ascii s = map (\<lambda>c. of_nat (of_char c)) s"

text \<open>
  The regular expression class \<open>\s\<close> and \<open>String.prototype.trim\<close> use the same set:
  the WhiteSpace and LineTerminator code points of ECMAScript, all in the basic plane.
\<close>

definition isWhiteSpace :: "code_unit \<Rightarrow> bool" where
  "isWhiteSpace u \<longleftrightarrow>
     u = 0x09 \<or> u = 0x0A \<or> u = 0x0B \<or> u = 0x0C \<or> u = 0x0D \<or> u = 0x20 \<or> u = 0xA0 \<or>
     u = 0x1680 \<or> (0x2000 \<le> u \<and> u \<le> 0x200A) \<or> u = 0x2028 \<or> u = 0x2029 \<or>
     u = 0x202F \<or> u = 0x205F \<or> u = 0x3000 \<or> u = 0xFEFF"

abbreviation nonWhiteSpace :: "code_unit \<Rightarrow> bool" where
  "nonWhiteSpace u \<equiv> \<not> isWhiteSpace u"

text \<open>
  \<open>s.split(/\s+/)\<close>: the pieces of \<open>s\<close> between the maximal runs of white space. A run at
  the very start or the very end of \<open>s\<close> leaves an empty piece there, and the empty string
  splits into one empty piece.
\<close>

function split_ws :: "jsstring \<Rightarrow> jsstring list" where
  "split_ws s =
     (if dropWhile nonWhiteSpace s = [] then [takeWhile nonWhiteSpace s]
      else takeWhile nonWhiteSpace s #
           split_ws (dropWhile isWhiteSpace (dropWhile nonWhiteSpace s)))"
  by pat_completeness auto
termination
proof (relation "measure length")
  show "wf (measure length)" by simp
next
  fix s :: jsstring
  assume ne: "dropWhile nonWhiteSpace s \<noteq> []"
  then obtain u us where r: "dropWhile nonWhiteSpace s = u # us"
    by (cases "dropWhile nonWhiteSpace s") auto
  have "isWhiteSpace u" using hd_dropWhile [OF ne] r by simp
  then have "length (dropWhile isWhiteSpace (u # us)) \<le> length us"
    by (simp add: length_dropWhile_le)
  moreover have "length (u # us) \<le> length s"
    using length_dropWhile_le [of nonWhiteSpace s] r by simp
  ultimately show "(dropWhile isWhiteSpace (dropWhile nonWhiteSpace s), s) \<in> measure length"
    using r by simp
qed

declare split_ws.simps [simp del]

text \<open>\<open>pieces.join(sep)\<close>.\<close>

fun join :: "jsstring \<Rightarrow> jsstring list \<Rightarrow> jsstring" where
  "join sep [] = []"
| "join sep [x] = x"
| "join sep (x # y # ys) = x @ sep @ join sep (y # ys)"

section \<open>The backend: word cap of a reply\<close>

definition MAX_RESPONSE_WORDS :: nat where
  "MAX_RESPONSE_WORDS = 15"

text \<open>
  \<^verbatim>\<open>
  function truncateToMaxWords(text, maxWords) {
      const words = text.split(/\s+/);
      if (words.length <= maxWords) { return text; }
      return words.slice(0, maxWords).join(' ') + '...';
  }
  \<close>
\<close>

definition truncateToMaxWords :: "jsstring \<Rightarrow> nat \<Rightarrow> jsstring" where
  "truncateToMaxWords text maxWords =
     (let words = split_ws text in
      if length words \<le> maxWords then text
      else join (of_ascii '' '') (take maxWords words) @ of_ascii ''...'')"

text \<open>
  The words of a text as the specification counts them: the maximal runs of characters
  that are not white space. This definition follows the specification, not the code, and
  is what the code is compared with.
\<close>

function words_of :: "jsstring \<Rightarrow> jsstring list" where
  "words_of s =
     (if dropWhile isWhiteSpace s = [] then []
      else takeWhile nonWhiteSpace (dropWhile isWhiteSpace s) #
           words_of (dropWhile nonWhiteSpace (dropWhile isWhiteSpace s)))"
  by pat_completeness auto
termination
proof (relation "measure length")
  show "wf (measure length)" by simp
next
  fix s :: jsstring
  assume ne: "dropWhile isWhiteSpace s \<noteq> []"
  then obtain u us where r: "dropWhile isWhiteSpace s = u # us"
    by (cases "dropWhile isWhiteSpace s") auto
  have "nonWhiteSpace u" using hd_dropWhile [OF ne] r by simp
  then have "length (dropWhile nonWhiteSpace (u # us)) \<le> length us"
    by (simp add: length_dropWhile_le)
  moreover have "length (u # us) \<le> length s"
    using length_dropWhile_le [of isWhiteSpace s] r by simp
  ultimately show "(dropWhile nonWhiteSpace (dropWhile isWhiteSpace s), s) \<in> measure length"
    using r by simp
qed

declare words_of.simps [simp del]

definition truncate_spec :: "jsstring \<Rightarrow> nat \<Rightarrow> jsstring" where
  "truncate_spec text k =
     (if length (words_of text) \<le> k then text
      else join (of_ascii '' '') (take k (words_of text)) @ of_ascii ''...'')"


section \<open>JavaScript values\<close>

text \<open>
  The values that a parsed JSON document, a request body or a reply can hold, with
  \<open>undefined\<close> for what is absent. An object lists each of its keys once.
\<close>

datatype jsval =
    JUndefined
  | JNull
  | JBool bool
  | JNum real
  | JStr jsstring
  | JArr "jsval list"
  | JObj "(jsstring \<times> jsval) list"

datatype js_error = TypeError | SyntaxError | NetworkError | DOMException | Error jsval

fun truthy :: "jsval \<Rightarrow> bool" where
  "truthy JUndefined = False"
| "truthy JNull = False"
| "truthy (JBool b) = b"
| "truthy (JNum r) = (r \<noteq> 0)"
| "truthy (JStr s) = (s \<noteq> [])"
| "truthy (JArr xs) = True"
| "truthy (JObj kvs) = True"

text \<open>\<open>a || b\<close>\<close>

definition js_or :: "jsval \<Rightarrow> jsval \<Rightarrow> jsval" where
  "js_or a b = (if truthy a then a else b)"

text \<open>\<open>Array.isArray(v)\<close>\<close>

fun isArray :: "jsval \<Rightarrow> bool" where
  "isArray (JArr xs) = True"
| "isArray v = False"

text \<open>
  \<open>v.k\<close> for the property names the program reads (none of them is a property of an
  array, a string, a number or a boolean): reading a property of \<open>undefined\<close> or \<open>null\<close>
  raises a TypeError. \<open>v?.k\<close> gives \<open>undefined\<close> there instead.
\<close>

fun get_prop :: "jsval \<Rightarrow> jsstring \<Rightarrow> js_error + jsval" where
  "get_prop JUndefined k = Inl TypeError"
| "get_prop JNull k = Inl TypeError"
| "get_prop (JObj kvs) k = Inr (case map_of kvs k of None \<Rightarrow> JUndefined | Some v \<Rightarrow> v)"
| "get_prop v k = Inr JUndefined"

fun get_prop_opt :: "jsval \<Rightarrow> jsstring \<Rightarrow> jsval" where
  "get_prop_opt (JObj kvs) k = (case map_of kvs k of None \<Rightarrow> JUndefined | Some v \<Rightarrow> v)"
| "get_prop_opt v k = JUndefined"

text \<open>\<open>v[0]\<close>\<close>

fun index0 :: "jsval \<Rightarrow> js_error + jsval" where
  "index0 JUndefined = Inl TypeError"
| "index0 JNull = Inl TypeError"
| "index0 (JArr xs) = Inr (case xs of [] \<Rightarrow> JUndefined | x # _ \<Rightarrow> x)"
| "index0 (JStr s) = Inr (case s of [] \<Rightarrow> JUndefined | c # _ \<Rightarrow> JStr [c])"
| "index0 (JObj kvs) = Inr (case map_of kvs (of_ascii ''0'') of None \<Rightarrow> JUndefined | Some v \<Rightarrow> v)"
| "index0 v = Inr JUndefined"

text \<open>The reply of a vendor or of the backend to a \<open>fetch\<close>: the call fails, or a
  response arrives with a status and a body that parses as JSON or does not.\<close>

datatype body = NotJson | Json jsval

datatype fetch_result = FetchFails | Response int body

definition response_ok :: "int \<Rightarrow> bool" where
  "response_ok status \<longleftrightarrow> 200 \<le> status \<and> status \<le> 299"

section \<open>The backend: the chat relay and the speech relay\<close>

text \<open>
  The handlers are modelled from the parsed request body to the response, with the
  vendor's reply as an input. Each handler returns its response together with the
  requests it sent to the vendor. The rate limiter and the CORS check run before a
  handler and are not part of it.
\<close>

datatype system_content =
    SystemPlus jsval jsstring \<comment> \<open>\<open>system + wordLimitInstruction\<close>\<close>
  | SystemText jsstring

record chat_request =
  req_model :: jsval
  req_max_tokens :: int
  req_temperature :: jsval
  req_system :: system_content
  req_messages :: "jsval list"

type_synonym chunk = "8 word list"

datatype http_response =
    JsonResponse int jsval \<comment> \<open>\<open>res.status(n).json(v)\<close>\<close>
  | AudioResponse "chunk list" \<comment> \<open>the audio stream, written chunk by chunk and ended\<close>
  | AudioAborted "chunk list" \<comment> \<open>chunks written, then the stream broke\<close>

definition error_body :: "jsstring \<Rightarrow> jsval" where
  "error_body msg = JObj [(of_ascii ''error'', JStr msg)]"

definition internal_error :: http_response where
  "internal_error = JsonResponse 500 (error_body (of_ascii ''Internal server error''))"

definition wordLimitInstruction :: jsstring where
  "wordLimitInstruction = of_ascii
     ''\<newline>\<newline>IMPORTANT: You MUST keep ALL responses to 15 words or less. Be extremely concise and brief. No exceptions.''"

text \<open>
  What \<open>POST /api/chat\<close> makes of the vendor's reply: a failed \<open>fetch\<close> and every
  exception end in the \<open>catch\<close> of the handler, which answers 500.
\<close>

definition chat_reply :: "fetch_result \<Rightarrow> http_response" where
  "chat_reply r =
     (case r of
        FetchFails \<Rightarrow> internal_error
      | Response status b \<Rightarrow>
          if \<not> response_ok status then
            (case b of
               NotJson \<Rightarrow> internal_error
             | Json err \<Rightarrow>
                 (case get_prop err (of_ascii ''error'') of
                    Inl e \<Rightarrow> internal_error
                  | Inr ee \<Rightarrow>
                      JsonResponse status
                        (JObj [(of_ascii ''error'',
                                js_or (get_prop_opt ee (of_ascii ''message''))
                                      (JStr (of_ascii ''API error'')))])))
          else
            (case b of
               NotJson \<Rightarrow> internal_error
             | Json data \<Rightarrow>
                 (case get_prop data (of_ascii ''choices'') of
                    Inl e \<Rightarrow> internal_error
                  | Inr choices \<Rightarrow>
                      (case index0 choices of
                         Inl e \<Rightarrow> internal_error
                       | Inr choice \<Rightarrow>
                           (case js_or (get_prop_opt (get_prop_opt choice (of_ascii ''message''))
                                          (of_ascii ''content''))
                                       (JStr (of_ascii ''No response generated.'')) of
                              JStr responseText \<Rightarrow>
                                JsonResponse 200
                                  (JObj [(of_ascii ''response'',
                                          JStr (truncateToMaxWords responseText MAX_RESPONSE_WORDS)),
                                         (of_ascii ''usage'', get_prop_opt data (of_ascii ''usage''))])
                            | v \<Rightarrow> internal_error)))))"

text \<open>
  \<^verbatim>\<open>
  app.post('/api/chat', async (req, res) => {
      try {
          const { messages, system, model, maxTokens, temperature } = req.body;
          if (!messages || !Array.isArray(messages)) {
              return res.status(400).json({ error: 'Messages array is required' });
          }
          ... fetch('https://api.openai.com/v1/chat/completions', ...) ...
      } catch (error) {
          res.status(500).json({ error: 'Internal server error' });
      }
  });
  \<close>
\<close>

definition api_chat :: "jsval \<Rightarrow> fetch_result \<Rightarrow> http_response \<times> chat_request list" where
  "api_chat reqBody vendor =
     (case get_prop reqBody (of_ascii ''messages'') of
        Inl e \<Rightarrow> (internal_error, [])
      | Inr messages \<Rightarrow>
          let system = get_prop_opt reqBody (of_ascii ''system'');
              model = get_prop_opt reqBody (of_ascii ''model'');
              temperature = get_prop_opt reqBody (of_ascii ''temperature'')
          in
          if \<not> truthy messages \<or> \<not> isArray messages then
            (JsonResponse 400 (error_body (of_ascii ''Messages array is required'')), [])
          else
            let request =
                 \<lparr> req_model = js_or model (JStr (of_ascii ''gpt-4o-mini'')),
                   req_max_tokens = 50,
                   req_temperature = js_or temperature (JNum 0.8),
                   req_system =
                     (if truthy system then SystemPlus system wordLimitInstruction
                      else SystemText (of_ascii ''You are a helpful assistant.'' @ wordLimitInstruction)),
                   req_messages = (case messages of JArr ms \<Rightarrow> ms | v \<Rightarrow> []) \<rparr>
            in (chat_reply vendor, [request]))"

record environment =
  ELEVENLABS_API_KEY :: jsval
  ELEVENLABS_VOICE_ID :: jsval

record tts_request =
  tts_voice :: jsval
  tts_api_key :: jsval
  tts_text :: jsval
  tts_model_id :: jsval
  tts_voice_settings :: jsval

datatype audio_stream = Complete "chunk list" | Broken "chunk list"

datatype tts_fetch_result = TtsFetchFails | TtsResponse int body audio_stream

definition tts_reply :: "tts_fetch_result \<Rightarrow> http_response" where
  "tts_reply r =
     (case r of
        TtsFetchFails \<Rightarrow> internal_error
      | TtsResponse status b stream \<Rightarrow>
          if \<not> response_ok status then
            (case get_prop (case b of NotJson \<Rightarrow> JObj [] | Json err \<Rightarrow> err) (of_ascii ''detail'') of
               Inl e \<Rightarrow> internal_error
             | Inr detail \<Rightarrow>
                 JsonResponse status
                   (JObj [(of_ascii ''error'', js_or detail (JStr (of_ascii ''TTS API error'')))]))
          else
            (case stream of
               Complete chunks \<Rightarrow> AudioResponse chunks
             | Broken chunks \<Rightarrow> if chunks = [] then internal_error else AudioAborted chunks))"

text \<open>
  \<^verbatim>\<open>
  app.post('/api/tts/elevenlabs', async (req, res) => {
      try {
          const { text, voiceId, modelId, voiceSettings } = req.body;
          if (!text) {
              return res.status(400).json({ error: 'Text is required' });
          }
          ... fetch(`https://api.elevenlabs.io/v1/text-to-speech/${voiceId || ...}`, ...) ...
  \<close>
\<close>

definition api_tts_elevenlabs ::
  "environment \<Rightarrow> jsval \<Rightarrow> tts_fetch_result \<Rightarrow> http_response \<times> tts_request list" where
  "api_tts_elevenlabs env reqBody vendor =
     (case get_prop reqBody (of_ascii ''text'') of
        Inl e \<Rightarrow> (internal_error, [])
      | Inr text \<Rightarrow>
          let voiceId = get_prop_opt reqBody (of_ascii ''voiceId'');
              modelId = get_prop_opt reqBody (of_ascii ''modelId'');
              voiceSettings = get_prop_opt reqBody (of_ascii ''voiceSettings'')
          in
          if \<not> truthy text then
            (JsonResponse 400 (error_body (of_ascii ''Text is required'')), [])
          else
            let request =
                 \<lparr> tts_voice = js_or voiceId (js_or (ELEVENLABS_VOICE_ID env)
                                               (JStr (of_ascii ''ErXwobaYiN019PkySvjV''))),
                   tts_api_key = ELEVENLABS_API_KEY env,
                   tts_text = text,
                   tts_model_id = js_or modelId (JStr (of_ascii ''eleven_monolingual_v1'')),
                   tts_voice_settings =
                     js_or voiceSettings
                       (JObj [(of_ascii ''stability'', JNum 0.5),
                              (of_ascii ''similarity_boost'', JNum 0.75)]) \<rparr>
            in (tts_reply vendor, [request]))"

section \<open>The speech controller: cleaning a text\<close>

text \<open>
  A regular expression with the \<open>u\<close> flag reads a string by code points: a high surrogate
  directly followed by a low surrogate is one code point beyond the basic plane, any other
  code unit (an unpaired surrogate too) is a code point by itself.
\<close>

definition isHighSurrogate :: "code_unit \<Rightarrow> bool" where
  "isHighSurrogate u \<longleftrightarrow> 0xD800 \<le> u \<and> u \<le> 0xDBFF"

definition isLowSurrogate :: "code_unit \<Rightarrow> bool" where
  "isLowSurrogate u \<longleftrightarrow> 0xDC00 \<le> u \<and> u \<le> 0xDFFF"

definition pairCodePoint :: "code_unit \<Rightarrow> code_unit \<Rightarrow> int" where
  "pairCodePoint hi lo = 0x10000 + (uint hi - 0xD800) * 0x400 + (uint lo - 0xDC00)"

fun code_points :: "jsstring \<Rightarrow> int list" where
  "code_points [] = []"
| "code_points [u] = [uint u]"
| "code_points (u # v # us) =
     (if isHighSurrogate u \<and> isLowSurrogate v then pairCodePoint u v # code_points us
      else uint u # code_points (v # us))"

text \<open>
  \<open>s.replace(/[class]/gu, '')\<close> for a class of code points \<open>cls\<close>: every code point of the
  class is deleted, in one pass from left to right.
\<close>

fun removeMatching :: "(int \<Rightarrow> bool) \<Rightarrow> jsstring \<Rightarrow> jsstring" where
  "removeMatching cls [] = []"
| "removeMatching cls [u] = (if cls (uint u) then [] else [u])"
| "removeMatching cls (u # v # us) =
     (if isHighSurrogate u \<and> isLowSurrogate v then
        (if cls (pairCodePoint u v) then removeMatching cls us
         else u # v # removeMatching cls us)
      else if cls (uint u) then removeMatching cls (v # us)
      else u # removeMatching cls (v # us))"

definition inRange :: "int \<Rightarrow> int \<Rightarrow> int \<Rightarrow> bool" where
  "inRange lo hi c \<longleftrightarrow> lo \<le> c \<and> c \<le> hi"

text \<open>\<open>s.replace(/\s+/g, ' ')\<close>: every maximal run of white space becomes one space.\<close>

function collapse_ws :: "jsstring \<Rightarrow> jsstring" where
  "collapse_ws [] = []"
| "collapse_ws (u # us) =
     (if isWhiteSpace u then 0x20 # collapse_ws (dropWhile isWhiteSpace us)
      else u # collapse_ws us)"
  by pat_completeness auto
termination
  by (relation "measure length") (auto simp: length_dropWhile_le le_imp_less_Suc)

text \<open>\<open>s.trim()\<close>.\<close>

definition trim :: "jsstring \<Rightarrow> jsstring" where
  "trim s = rev (dropWhile isWhiteSpace (rev (dropWhile isWhiteSpace s)))"

text \<open>
  \<^verbatim>\<open>
  cleanTextForTTS(text) {
      return text
          .replace(/[\u{1F600}-\u{1F64F}]/gu, '') // Emoticons
          .replace(/[\u{1F300}-\u{1F5FF}]/gu, '') // Misc Symbols
          .replace(/[\u{1F680}-\u{1F6FF}]/gu, '') // Transport
          .replace(/[\u{1F1E0}-\u{1F1FF}]/gu, '') // Flags
          .replace(/[\u{2600}-\u{26FF}]/gu, '')   // Misc symbols
          .replace(/[\u{2700}-\u{27BF}]/gu, '')   // Dingbats
          .replace(/\s+/g, ' ')
          .trim();
  }
  \<close>
\<close>

definition cleanTextForTTS :: "jsstring \<Rightarrow> jsstring" where
  "cleanTextForTTS text =
     trim (collapse_ws
       (removeMatching (inRange 0x2700 0x27BF)
       (removeMatching (inRange 0x2600 0x26FF)
       (removeMatching (inRange 0x1F1E0 0x1F1FF)
       (removeMatching (inRange 0x1F680 0x1F6FF)
       (removeMatching (inRange 0x1F300 0x1F5FF)
       (removeMatching (inRange 0x1F600 0x1F64F) text)))))))"

text \<open>
  The six ranges taken together, and the strings in which every surrogate is paired
  (well-formed UTF-16). Both are notions of the specification.
\<close>

definition isEmoji :: "int \<Rightarrow> bool" where
  "isEmoji c \<longleftrightarrow>
     inRange 0x1F600 0x1F64F c \<or> inRange 0x1F300 0x1F5FF c \<or> inRange 0x1F680 0x1F6FF c \<or>
     inRange 0x1F1E0 0x1F1FF c \<or> inRange 0x2600 0x26FF c \<or> inRange 0x2700 0x27BF c"

fun well_formed :: "jsstring \<Rightarrow> bool" where
  "well_formed [] = True"
| "well_formed [u] = (\<not> isHighSurrogate u \<and> \<not> isLowSurrogate u)"
| "well_formed (u # v # us) =
     (if isHighSurrogate u then isLowSurrogate v \<and> well_formed us
      else \<not> isLowSurrogate u \<and> well_formed (v # us))"

text \<open>The cleaning as the specification words it: the words of the text without its
  emoji, separated by single spaces.\<close>

definition clean_spec :: "jsstring \<Rightarrow> jsstring" where
  "clean_spec text = join (of_ascii '' '') (words_of (removeMatching isEmoji text))"


section \<open>The speech controller\<close>

text \<open>
  A callback is a function of the application: the model knows it by an identifier and
  records every invocation as an event; the callback returns to its caller. An
  asynchronous call either resolves, rejects or stays pending for ever.
\<close>

type_synonym callback = nat

datatype ('e, 'a) promise = Resolved 'a | Rejected 'e | Pending

datatype producer = ElevenLabsTTS | OpenAITTS | BrowserTTS

datatype tts_error =
    FetchError \<comment> \<open>\<open>fetch\<close> rejects: the network or the relay is down\<close>
  | ApiError producer int \<comment> \<open>\<open>new Error(`... API error: ${response.status}`)\<close>\<close>
  | BlobError \<comment> \<open>\<open>response.blob()\<close> rejects\<close>
  | NoAudioPlayer \<comment> \<open>the TypeError of \<open>this.audioPlayer.src = url\<close> without a player\<close>
  | SynthesisUnsupported \<comment> \<open>\<open>new Error('Speech synthesis not supported')\<close>\<close>
  | SynthesisError jsstring \<comment> \<open>\<open>new Error(`Speech synthesis error: ${event.error}`)\<close>\<close>
  | PlaybackError \<comment> \<open>the error of the audio element, or of the promise of \<open>play()\<close>\<close>

datatype tts_event =
    ProducerRun producer jsstring \<comment> \<open>a speech producer is called with the cleaned text\<close>
  | StartCallback callback \<comment> \<open>\<open>this.onStartCallback()\<close>\<close>
  | EndCallback callback \<comment> \<open>\<open>this.onEndCallback()\<close>\<close>
  | AudioErrorRun tts_error \<comment> \<open>\<open>this.onAudioError(error)\<close>\<close>

record audio_element =
  audio_src :: jsstring
  audio_paused :: bool
  audio_currentTime :: real

record speech_synthesis =
  synth_queue :: "jsstring list" \<comment> \<open>the utterances queued or being spoken\<close>

record tts =
  audioPlayer :: "audio_element option"
  currentProvider :: jsstring
  isPlaying :: bool
  speechSynthesis :: "speech_synthesis option"
  currentUtterance :: "jsstring option"
  onStartCallback :: "callback option"
  onEndCallback :: "callback option"

definition run_callback :: "callback option \<Rightarrow> (callback \<Rightarrow> tts_event) \<Rightarrow> tts_event list" where
  "run_callback cb ev = (case cb of None \<Rightarrow> [] | Some c \<Rightarrow> [ev c])"

definition onAudioStart :: "tts \<Rightarrow> tts \<times> tts_event list" where
  "onAudioStart s = (s\<lparr>isPlaying := True\<rparr>, run_callback (onStartCallback s) StartCallback)"

definition onAudioEnd :: "tts \<Rightarrow> tts \<times> tts_event list" where
  "onAudioEnd s = (s\<lparr>isPlaying := False\<rparr>, run_callback (onEndCallback s) EndCallback)"

text \<open>
  \<^verbatim>\<open>
  onAudioError(error) {
      console.error('Audio error:', error);
      this.isPlaying = false;
      if (this.onEndCallback) { this.onEndCallback(); }
  }
  \<close>
\<close>

definition onAudioError :: "tts \<Rightarrow> tts_error \<Rightarrow> tts \<times> tts_event list" where
  "onAudioError s e =
     (s\<lparr>isPlaying := False\<rparr>, AudioErrorRun e # run_callback (onEndCallback s) EndCallback)"

text \<open>
  What the audio element reports after \<open>play()\<close>: its \<open>play\<close>, \<open>ended\<close> and \<open>error\<close> events, and
  the rejection of the promise of \<open>play()\<close>. Each one runs the handler that \<open>init\<close> and
  \<open>playAudio\<close> registered for it.
\<close>

datatype audio_signal = PlaySignal | EndedSignal | ErrorSignal | PlayRejected

fun audio_signals :: "audio_signal list \<Rightarrow> tts \<Rightarrow> tts \<times> tts_event list" where
  "audio_signals [] s = (s, [])"
| "audio_signals (sig # sigs) s =
     (let (s1, ev1) =
            (case sig of
               PlaySignal \<Rightarrow> onAudioStart s
             | EndedSignal \<Rightarrow> onAudioEnd s
             | ErrorSignal \<Rightarrow> onAudioError s PlaybackError
             | PlayRejected \<Rightarrow> onAudioError s PlaybackError);
          (s2, ev2) = audio_signals sigs s1
      in (s2, ev1 @ ev2))"

definition playAudio ::
  "tts \<Rightarrow> jsstring \<Rightarrow> audio_signal list \<Rightarrow> (tts_error, unit) promise \<times> tts \<times> tts_event list" where
  "playAudio s url sigs =
     (case audioPlayer s of
        None \<Rightarrow> (Rejected NoAudioPlayer, s, [])
      | Some a \<Rightarrow>
          let (s1, ev) =
                audio_signals sigs (s\<lparr>audioPlayer := Some (a\<lparr>audio_src := url, audio_paused := False\<rparr>)\<rparr>)
          in (Resolved (), s1, ev))"

text \<open>The reply of the backend to a speech request: \<open>fetch\<close> fails, or a response with
  a status arrives whose body becomes a blob or fails to.\<close>

datatype blob_result = BlobFails | Blob jsstring

datatype speech_fetch = SpeechFetchFails | SpeechResponse int blob_result

text \<open>\<open>speakWithElevenLabs\<close> and \<open>speakWithOpenAI\<close> differ in the endpoint and in the
  settings they send; what follows the \<open>fetch\<close> is the same code.\<close>

definition speakWithRemote ::
  "producer \<Rightarrow> tts \<Rightarrow> jsstring \<Rightarrow> speech_fetch \<Rightarrow> audio_signal list
   \<Rightarrow> (tts_error, unit) promise \<times> tts \<times> tts_event list" where
  "speakWithRemote p s text reply sigs =
     (case reply of
        SpeechFetchFails \<Rightarrow> (Rejected FetchError, s, [ProducerRun p text])
      | SpeechResponse status b \<Rightarrow>
          if \<not> response_ok status then (Rejected (ApiError p status), s, [ProducerRun p text])
          else
            (case b of
               BlobFails \<Rightarrow> (Rejected BlobError, s, [ProducerRun p text])
             | Blob url \<Rightarrow>
                 let (r, s1, ev) = playAudio s url sigs in (r, s1, ProducerRun p text # ev)))"

definition speakWithElevenLabs ::
  "tts \<Rightarrow> jsstring \<Rightarrow> speech_fetch \<Rightarrow> audio_signal list
   \<Rightarrow> (tts_error, unit) promise \<times> tts \<times> tts_event list" where
  "speakWithElevenLabs = speakWithRemote ElevenLabsTTS"

definition speakWithOpenAI ::
  "tts \<Rightarrow> jsstring \<Rightarrow> speech_fetch \<Rightarrow> audio_signal list
   \<Rightarrow> (tts_error, unit) promise \<times> tts \<times> tts_event list" where
  "speakWithOpenAI = speakWithRemote OpenAITTS"


text \<open>
  The life of an utterance handed to the browser's speech synthesis: whether its \<open>start\<close>
  event fires, and whether it then ends, fails with an error code, or reports nothing more.
\<close>

datatype utterance_end = UtteranceEnds | UtteranceErrors jsstring | UtteranceSilent

record utterance_life =
  utterance_started :: bool
  utterance_end :: utterance_end

text \<open>
  \<^verbatim>\<open>
  async speakWithBrowser(text) {
      return new Promise((resolve, reject) => {
          if (!this.speechSynthesis) {
              reject(new Error('Speech synthesis not supported'));
              return;
          }
          this.speechSynthesis.cancel();
          const utterance = new SpeechSynthesisUtterance(text);
          this.currentUtterance = utterance;
          ...
          utterance.onstart = () => {
              this.isPlaying = true;
              if (this.onStartCallback) this.onStartCallback();
          };
          utterance.onend = () => {
              this.isPlaying = false;
              this.currentUtterance = null;
              if (this.onEndCallback) this.onEndCallback();
              resolve();
          };
          utterance.onerror = (event) => {
              this.isPlaying = false;
              this.currentUtterance = null;
              if (event.error !== 'canceled') {
                  reject(new Error(`Speech synthesis error: ${event.error}`));
              }
          };
          this.speechSynthesis.speak(utterance);
      });
  }
  \<close>
\<close>

definition speakWithBrowser ::
  "tts \<Rightarrow> jsstring \<Rightarrow> utterance_life \<Rightarrow> (tts_error, unit) promise \<times> tts \<times> tts_event list" where
  "speakWithBrowser s text life =
     (case speechSynthesis s of
        None \<Rightarrow> (Rejected SynthesisUnsupported, s, [ProducerRun BrowserTTS text])
      | Some synth \<Rightarrow>
          let s1 = s\<lparr>speechSynthesis := Some (synth\<lparr>synth_queue := [text]\<rparr>),
                     currentUtterance := Some text\<rparr>;
              (s2, ev2) =
                (if utterance_started life
                 then (s1\<lparr>isPlaying := True\<rparr>, run_callback (onStartCallback s1) StartCallback)
                 else (s1, []));
              done = s2\<lparr>isPlaying := False, currentUtterance := None,
                        speechSynthesis := Some (synth\<lparr>synth_queue := []\<rparr>)\<rparr>
          in
          (case utterance_end life of
             UtteranceEnds \<Rightarrow>
               (Resolved (), done,
                ProducerRun BrowserTTS text # ev2 @ run_callback (onEndCallback s2) EndCallback)
           | UtteranceErrors code \<Rightarrow>
               (if code \<noteq> of_ascii ''canceled'' then Rejected (SynthesisError code) else Pending,
                done, ProducerRun BrowserTTS text # ev2)
           | UtteranceSilent \<Rightarrow> (Pending, s2, ProducerRun BrowserTTS text # ev2)))"

text \<open>What the world does during one call of \<open>speak\<close>.\<close>

record speak_env =
  speech_reply :: speech_fetch
  signals :: "audio_signal list"
  primary_utterance :: utterance_life \<comment> \<open>when the \<open>switch\<close> calls the browser producer\<close>
  fallback_utterance :: utterance_life \<comment> \<open>when the \<open>catch\<close> calls the browser producer\<close>

text \<open>
  \<^verbatim>\<open>
  async speak(text, onStart, onEnd) {
      this.onStartCallback = onStart;
      this.onEndCallback = onEnd;
      const cleanText = this.cleanTextForTTS(text);
      try {
          switch (this.currentProvider) {
              case 'elevenlabs': await this.speakWithElevenLabs(cleanText); break;
              case 'openai':     await this.speakWithOpenAI(cleanText); break;
              case 'browser':
              default:           await this.speakWithBrowser(cleanText); break;
          }
      } catch (error) {
          console.error('TTS Error:', error);
          if (this.currentProvider !== 'browser') {
              console.log('Falling back to browser TTS');
              await this.speakWithBrowser(cleanText);
          } else {
              this.onAudioError(error);
          }
      }
  }
  \<close>
\<close>

definition speak ::
  "tts \<Rightarrow> jsstring \<Rightarrow> callback option \<Rightarrow> callback option \<Rightarrow> speak_env
   \<Rightarrow> (tts_error, unit) promise \<times> tts \<times> tts_event list" where
  "speak s text onStart onEnd env =
     (let s1 = s\<lparr>onStartCallback := onStart, onEndCallback := onEnd\<rparr>;
          cleanText = cleanTextForTTS text;
          (r, s2, ev) =
            (if currentProvider s1 = of_ascii ''elevenlabs''
             then speakWithElevenLabs s1 cleanText (speech_reply env) (signals env)
             else if currentProvider s1 = of_ascii ''openai''
             then speakWithOpenAI s1 cleanText (speech_reply env) (signals env)
             else speakWithBrowser s1 cleanText (primary_utterance env))
      in
      (case r of
         Rejected error \<Rightarrow>
           if currentProvider s2 \<noteq> of_ascii ''browser'' then
             (let (r3, s3, ev3) = speakWithBrowser s2 cleanText (fallback_utterance env)
              in (r3, s3, ev @ ev3))
           else
             (let (s3, ev3) = onAudioError s2 error in (Resolved (), s3, ev @ ev3))
       | Resolved u \<Rightarrow> (Resolved u, s2, ev)
       | Pending \<Rightarrow> (Pending, s2, ev)))"


text \<open>The events of a kind in a log.\<close>

fun is_producer_run :: "tts_event \<Rightarrow> bool" where
  "is_producer_run (ProducerRun p t) = True"
| "is_producer_run e = False"

fun is_browser_run :: "tts_event \<Rightarrow> bool" where
  "is_browser_run (ProducerRun p t) = (p = BrowserTTS)"
| "is_browser_run e = False"

fun is_start_callback :: "tts_event \<Rightarrow> bool" where
  "is_start_callback (StartCallback c) = True"
| "is_start_callback e = False"

fun is_end_callback :: "tts_event \<Rightarrow> bool" where
  "is_end_callback (EndCallback c) = True"
| "is_end_callback e = False"

fun is_audio_error_run :: "tts_event \<Rightarrow> bool" where
  "is_audio_error_run (AudioErrorRun e) = True"
| "is_audio_error_run e = False"

text \<open>The primary remote producer throws: the request fails, the response is not 2xx,
  its body cannot be read, or there is no audio element to play it.\<close>

definition remote_throws :: "tts \<Rightarrow> speech_fetch \<Rightarrow> bool" where
  "remote_throws s reply =
     (case reply of
        SpeechFetchFails \<Rightarrow> True
      | SpeechResponse status b \<Rightarrow>
          \<not> response_ok status \<or> b = BlobFails \<or> audioPlayer s = None)"


section \<open>The conversation controller\<close>

definition maxHistoryMessages :: nat where
  "maxHistoryMessages = 50" \<comment> \<open>\<open>CONFIG.UI.maxHistoryMessages\<close>\<close>

datatype role = User | Assistant

record message =
  msg_role :: role
  msg_content :: jsval
  msg_timestamp :: jsstring

text \<open>
  The controller with what it writes to: the history panel of the page (absent when the
  page has no such element) and the entry of local storage.
\<close>

record conversation =
  conversationHistory :: "message list"
  isProcessing :: bool
  historyContent :: "message list option"
  localStorage :: "message list option"

text \<open>
  What the browser does during one call of \<open>addToHistory\<close>: the time it reports, whether
  \<open>localStorage.setItem\<close> raises (a full quota), and whether a DOM operation of
  \<open>renderHistoryMessage\<close> raises (an unexpected local error).
\<close>

record host =
  host_now :: jsstring
  storage_raises :: bool
  render_raises :: bool

text \<open>\<open>xs.slice(start)\<close>, with a negative \<open>start\<close> counting from the end.\<close>

definition slice_from :: "int \<Rightarrow> 'a list \<Rightarrow> 'a list" where
  "slice_from start xs =
     (let len = int (length xs);
          k = (if start < 0 then max (len + start) 0 else min start len)
      in drop (nat k) xs)"

text \<open>\<open>saveHistory\<close> catches what \<open>setItem\<close> raises.\<close>

definition saveHistory :: "host \<Rightarrow> conversation \<Rightarrow> conversation" where
  "saveHistory h s =
     (if storage_raises h then s else s\<lparr>localStorage := Some (conversationHistory s)\<rparr>)"

definition renderHistoryMessage ::
  "host \<Rightarrow> message \<Rightarrow> conversation \<Rightarrow> js_error option \<times> conversation" where
  "renderHistoryMessage h m s =
     (case historyContent s of
        None \<Rightarrow> (None, s)
      | Some panel \<Rightarrow>
          if render_raises h then (Some DOMException, s)
          else (None, s\<lparr>historyContent := Some (panel @ [m])\<rparr>))"

text \<open>
  \<^verbatim>\<open>
  addToHistory(role, content) {
      const message = { role, content, timestamp: new Date().toISOString() };
      this.conversationHistory.push(message);
      if (this.conversationHistory.length > CONFIG.UI.maxHistoryMessages) {
          this.conversationHistory = this.conversationHistory.slice(-CONFIG.UI.maxHistoryMessages);
      }
      this.saveHistory();
      this.renderHistoryMessage(message);
  }
  \<close>
  The result is the exception that escapes, if any, and the state left behind.
\<close>

definition addToHistory ::
  "host \<Rightarrow> role \<Rightarrow> jsval \<Rightarrow> conversation \<Rightarrow> js_error option \<times> conversation" where
  "addToHistory h r c s =
     (let m = \<lparr>msg_role = r, msg_content = c, msg_timestamp = host_now h\<rparr>;
          pushed = conversationHistory s @ [m];
          trimmed = (if length pushed > maxHistoryMessages
                     then slice_from (- int maxHistoryMessages) pushed else pushed)
      in renderHistoryMessage h m (saveHistory h (s\<lparr>conversationHistory := trimmed\<rparr>)))"

definition fallbackResponses :: "jsstring list" where
  "fallbackResponses =
     [of_ascii ''Ah, the island breeze must have scrambled my thoughts! Could you say that again, friend? ''
        @ [0xF8FF, 0xFC, 0xE5, 0xA5],
      of_ascii ''Hmm, the coconuts are interfering with my thinking today. Let me ponder that one... ''
        @ [0xF8FF, 0xFC, 0x2022, 0x2022],
      of_ascii ''The waves are a bit loud right now! But I'' @ [0x27] @ of_ascii ''m always happy to chat. What''
        @ [0x27] @ of_ascii ''s on your mind?'',
      of_ascii ''My tropical brain needs a moment - the sun is particularly bright today! ''
        @ [0x201A, 0xF2, 0xC4, 0xD4, 0x220F, 0xE8],
      of_ascii ''Interesting question! The ocean seems to have washed away my answer. Care to try again?'']"

text \<open>
  \<^verbatim>\<open>
  getFallbackResponse(userMessage) {
      const fallbackResponses = [ ... ];
      return fallbackResponses[Math.floor(Math.random() * fallbackResponses.length)];
  }
  \<close>
  \<open>rnd\<close> is the value of \<open>Math.random()\<close>; an index outside the array reads \<open>undefined\<close>.
  The product is taken over the reals. The product of the two doubles, rounded, can reach
  the next integer and so select the next line of the list (at \<open>0.6\<close>, the fourth line
  where the real product selects the third); it stays below \<open>5\<close> for every value below
  \<open>1\<close>, and the index within the list.
\<close>

definition getFallbackResponse :: "real \<Rightarrow> jsval \<Rightarrow> jsval" where
  "getFallbackResponse rnd userMessage =
     (let i = \<lfloor>rnd * real (length fallbackResponses)\<rfloor>
      in if 0 \<le> i \<and> i < int (length fallbackResponses)
         then JStr (fallbackResponses ! nat i) else JUndefined)"

text \<open>
  \<^verbatim>\<open>
  async callClaudeAPI(messages) {
      try {
          const response = await fetch(`${CONFIG.API.BASE_URL}/chat`, { ... });
          if (!response.ok) {
              const errorData = await response.json().catch(() => ({}));
              throw new Error(errorData.error || `API error: ${response.status}`);
          }
          const data = await response.json();
          return data.response;
      } catch (error) {
          console.error('Claude API Error:', error);
          return this.getFallbackResponse(messages[messages.length - 1]?.content || '');
      }
  }
  \<close>
  Every exception of the \<open>try\<close> block is caught, so the call always returns a value.
\<close>

definition callClaudeAPI :: "fetch_result \<Rightarrow> real \<Rightarrow> (role \<times> jsval) list \<Rightarrow> jsval" where
  "callClaudeAPI relay rnd messages =
     (let fallback = getFallbackResponse rnd
            (js_or (case messages of [] \<Rightarrow> JUndefined | ms \<Rightarrow> snd (last ms)) (JStr []))
      in case relay of
           FetchFails \<Rightarrow> fallback
         | Response status b \<Rightarrow>
             if \<not> response_ok status then fallback
             else (case b of
                     NotJson \<Rightarrow> fallback
                   | Json data \<Rightarrow>
                       (case get_prop data (of_ascii ''response'') of
                          Inl e \<Rightarrow> fallback
                        | Inr v \<Rightarrow> v)))"

text \<open>
  \<^verbatim>\<open>
  async sendMessage(userMessage) {
      if (this.isProcessing) {
          throw new Error('Already processing a message');
      }
      this.isProcessing = true;
      try {
          this.addToHistory('user', userMessage);
          const messages = this.conversationHistory.map(msg => ({
              role: msg.role, content: msg.content }));
          const response = await this.callClaudeAPI(messages);
          this.addToHistory('assistant', response);
          return response;
      } finally {
          this.isProcessing = false;
      }
  }
  \<close>
  The call suspends once, at the \<open>await\<close>. \<open>sendMessage_begin\<close> runs it up to there: it
  rejects, or it leaves the request to the relay outstanding. \<open>sendMessage_resume\<close> runs
  it from the reply of the relay to its end.
\<close>

definition busy_error :: js_error where
  "busy_error = Error (JStr (of_ascii ''Already processing a message''))"

definition sendMessage_begin ::
  "host \<Rightarrow> conversation \<Rightarrow> jsstring \<Rightarrow> (js_error + (role \<times> jsval) list) \<times> conversation" where
  "sendMessage_begin h s userMessage =
     (if isProcessing s then (Inl busy_error, s)
      else
        (case addToHistory h User (JStr userMessage) (s\<lparr>isProcessing := True\<rparr>) of
           (Some e, s1) \<Rightarrow> (Inl e, s1\<lparr>isProcessing := False\<rparr>)
         | (None, s1) \<Rightarrow>
             (Inr (map (\<lambda>m. (msg_role m, msg_content m)) (conversationHistory s1)), s1)))"

definition sendMessage_resume ::
  "host \<Rightarrow> fetch_result \<Rightarrow> real \<Rightarrow> conversation \<Rightarrow> (role \<times> jsval) list
   \<Rightarrow> (js_error, jsval) promise \<times> conversation" where
  "sendMessage_resume h relay rnd s messages =
     (let response = callClaudeAPI relay rnd messages in
      case addToHistory h Assistant response s of
        (Some e, s1) \<Rightarrow> (Rejected e, s1\<lparr>isProcessing := False\<rparr>)
      | (None, s1) \<Rightarrow> (Resolved response, s1\<lparr>isProcessing := False\<rparr>))"

text \<open>What the world does during one whole call of \<open>sendMessage\<close>.\<close>

record turn_env =
  user_host :: host
  relay_reply :: fetch_result
  random_value :: real
  assistant_host :: host

definition sendMessage ::
  "turn_env \<Rightarrow> conversation \<Rightarrow> jsstring \<Rightarrow> (js_error, jsval) promise \<times> conversation" where
  "sendMessage env s userMessage =
     (case sendMessage_begin (user_host env) s userMessage of
        (Inl e, s1) \<Rightarrow> (Rejected e, s1)
      | (Inr messages, s1) \<Rightarrow>
          sendMessage_resume (assistant_host env) (relay_reply env) (random_value env) s1 messages)"

text \<open>The relay call fails: a network error or a response that is not 2xx.\<close>

definition relay_fails :: "fetch_result \<Rightarrow> bool" where
  "relay_fails r = (case r of FetchFails \<Rightarrow> True | Response status b \<Rightarrow> \<not> response_ok status)"


text \<open>
  \<^verbatim>\<open>
  clearHistory() {
      this.conversationHistory = [];
      this.saveHistory();
      if (this.historyContent) { this.historyContent.innerHTML = ''; }
  }
  \<close>
\<close>

definition clearHistory :: "host \<Rightarrow> conversation \<Rightarrow> conversation" where
  "clearHistory h s =
     (let s1 = saveHistory h (s\<lparr>conversationHistory := []\<rparr>)
      in s1\<lparr>historyContent := (case historyContent s1 of None \<Rightarrow> None | Some panel \<Rightarrow> Some [])\<rparr>)"

text \<open>
  The controller over time. Between the two halves of a call other events happen: the
  application submits again, the relay answers, the user clears the history. The
  requests to the relay that have no answer yet are the outstanding calls.
\<close>

record orchestrator =
  controller :: conversation
  outstanding :: "(role \<times> jsval) list list"

datatype turn_event =
    Submit host jsstring
  | RelayReplies host fetch_result real
  | ClearHistory host

fun step :: "turn_event \<Rightarrow> orchestrator \<Rightarrow> orchestrator" where
  "step (Submit h userMessage) sys =
     (case sendMessage_begin h (controller sys) userMessage of
        (Inl e, c) \<Rightarrow> sys\<lparr>controller := c\<rparr>
      | (Inr request, c) \<Rightarrow> sys\<lparr>controller := c, outstanding := outstanding sys @ [request]\<rparr>)"
| "step (RelayReplies h reply rnd) sys =
     (case outstanding sys of
        [] \<Rightarrow> sys
      | request # rest \<Rightarrow>
          sys\<lparr>controller := snd (sendMessage_resume h reply rnd (controller sys) request),
              outstanding := rest\<rparr>)"
| "step (ClearHistory h) sys = sys\<lparr>controller := clearHistory h (controller sys)\<rparr>"

fun run :: "turn_event list \<Rightarrow> orchestrator \<Rightarrow> orchestrator" where
  "run [] sys = sys"
| "run (e # es) sys = run es (step e sys)"

section \<open>The avatar controller\<close>

text \<open>
  The controller of the streaming avatar, with the fields that \<open>speak\<close> reads. Its
  callbacks are functions that the application assigns to the fields \<open>onSpeakingStart\<close>
  and \<open>onError\<close>. Called with an argument, such a function returns or raises an exception:
  the model knows it by an identifier and by what it raises, and records every invocation
  as an event. \<open>speak\<close> changes no field, so it is modelled by its result and its log.
\<close>

record 'a handler =
  handler_id :: callback
  handler_raises :: "'a \<Rightarrow> js_error option" \<comment> \<open>\<open>None\<close>: the call returns\<close>

record heygen =
  sessionId :: jsval
  isConnected :: bool
  onSpeakingStart :: "unit handler option"
  onError :: "js_error handler option"

datatype heygen_event =
    SpeakRequest jsval jsstring \<comment> \<open>\<open>POST /heygen/speak\<close> with the session id and the text\<close>
  | SpeakingStartCallback callback \<comment> \<open>\<open>this.onSpeakingStart()\<close>\<close>
  | ErrorCallback callback js_error \<comment> \<open>\<open>this.onError(error)\<close>\<close>

text \<open>
  \<^verbatim>\<open>
  async speak(text) {
      if (!this.isConnected || !this.sessionId) {
          console.warn('HeyGen not connected. Using fallback TTS.');
          return false;
      }
      try {
          console.log('Making avatar speak:', text.substring(0, 50) + '...');
          const response = await fetch(`${CONFIG.API.BASE_URL}/heygen/speak`, { ... });
          if (!response.ok) {
              const error = await response.json();
              throw new Error(error.error || 'Failed to speak');
          }
          const data = await response.json();
          console.log('Speak task created:', data.task_id);
          if (this.onSpeakingStart) { this.onSpeakingStart(); }
          return true;
      } catch (error) {
          console.error('HeyGen speak error:', error);
          if (this.onError) { this.onError(error); }
          return false;
      }
  }
  \<close>
  The \<open>catch\<close> block, entered with the log of the \<open>try\<close> block and the exception caught:
  the call of \<open>onError\<close> is not guarded, so an exception that \<open>onError\<close> raises leaves
  \<open>speak\<close>, whose promise then rejects. The call of \<open>onSpeakingStart\<close> stands inside the
  \<open>try\<close> block, so an exception that it raises is caught like a failure of the request.
\<close>

definition heygen_caught ::
  "heygen \<Rightarrow> heygen_event list \<Rightarrow> js_error \<Rightarrow> (js_error, bool) promise \<times> heygen_event list" where
  "heygen_caught s ev e =
     (case onError s of
        None \<Rightarrow> (Resolved False, ev)
      | Some h \<Rightarrow>
          (case handler_raises h e of
             None \<Rightarrow> (Resolved False, ev @ [ErrorCallback (handler_id h) e])
           | Some raised \<Rightarrow> (Rejected raised, ev @ [ErrorCallback (handler_id h) e])))"

definition heygen_speak ::
  "heygen \<Rightarrow> jsstring \<Rightarrow> fetch_result \<Rightarrow> (js_error, bool) promise \<times> heygen_event list" where
  "heygen_speak s text relay =
     (if \<not> isConnected s \<or> \<not> truthy (sessionId s) then (Resolved False, [])
      else
        let request = SpeakRequest (sessionId s) text in
        (case relay of
           FetchFails \<Rightarrow> heygen_caught s [request] NetworkError
         | Response status b \<Rightarrow>
             if \<not> response_ok status then
               (case b of
                  NotJson \<Rightarrow> heygen_caught s [request] SyntaxError
                | Json err \<Rightarrow>
                    (case get_prop err (of_ascii ''error'') of
                       Inl e \<Rightarrow> heygen_caught s [request] e
                     | Inr m \<Rightarrow>
                         heygen_caught s [request]
                           (Error (js_or m (JStr (of_ascii ''Failed to speak''))))))
             else
               (case b of
                  NotJson \<Rightarrow> heygen_caught s [request] SyntaxError
                | Json data \<Rightarrow>
                    (case get_prop data (of_ascii ''task_id'') of
                       Inl e \<Rightarrow> heygen_caught s [request] e
                     | Inr task \<Rightarrow>
                         (case onSpeakingStart s of
                            None \<Rightarrow> (Resolved True, [request])
                          | Some h \<Rightarrow>
                              (case handler_raises h () of
                                 None \<Rightarrow>
                                   (Resolved True, [request, SpeakingStartCallback (handler_id h)])
                               | Some e \<Rightarrow>
                                   heygen_caught s
                                     [request, SpeakingStartCallback (handler_id h)] e))))))"

text \<open>\<open>isAvailable() { return this.isConnected && this.sessionId !== null; }\<close>\<close>

definition heygen_isAvailable :: "heygen \<Rightarrow> bool" where
  "heygen_isAvailable s \<longleftrightarrow> isConnected s \<and> sessionId s \<noteq> JNull"

text \<open>The relay answers the speak request with success: a 2xx response whose body is
  JSON other than \<open>null\<close>.\<close>

definition relay_succeeds :: "fetch_result \<Rightarrow> bool" where
  "relay_succeeds r =
     (case r of
        FetchFails \<Rightarrow> False
      | Response status b \<Rightarrow>
          response_ok status \<and>
          (case b of NotJson \<Rightarrow> False | Json data \<Rightarrow> data \<noteq> JNull \<and> data \<noteq> JUndefined))"


text \<open>The local producer throws: the browser has no speech synthesis, or the utterance
  fails with an error other than \<open>canceled\<close>.\<close>

definition browser_throws :: "tts \<Rightarrow> utterance_life \<Rightarrow> bool" where
  "browser_throws s life =
     (case speechSynthesis s of
        None \<Rightarrow> True
      | Some synth \<Rightarrow>
          (case utterance_end life of
             UtteranceErrors code \<Rightarrow> code \<noteq> of_ascii ''canceled''
           | e \<Rightarrow> False))"

text \<open>The flag of the controller agrees with the calls that are outstanding, of which
  there is at most one.\<close>

definition flag_matches :: "orchestrator \<Rightarrow> bool" where
  "flag_matches sys \<longleftrightarrow>
     (isProcessing (controller sys) \<longleftrightarrow> outstanding sys \<noteq> []) \<and> length (outstanding sys) \<le> 1"

text \<open>The space that the collapsed text has at its start, and at its end, before it is
  trimmed.\<close>

definition lead :: "jsstring \<Rightarrow> jsstring" where
  "lead s = (if s \<noteq> [] \<and> isWhiteSpace (hd s) then [0x20] else [])"

definition trail :: "jsstring \<Rightarrow> jsstring" where
  "trail s = (if dropWhile isWhiteSpace s \<noteq> [] \<and> isWhiteSpace (last s) then [0x20] else [])"

section \<open>Concrete inputs\<close>

text \<open>A reply of fifteen words that starts with a space.\<close>

definition padded_reply :: jsstring where
  "padded_reply = of_ascii '' a b c d e f g h i j k l m n o''"

text \<open>A reply of fifteen words that ends with a line break.\<close>

definition reply_with_newline :: jsstring where
  "reply_with_newline = of_ascii ''a b c d e f g h i j k l m n o\<newline>''"

text \<open>\<open>"Test \<dots> message!!"\<close> with U+1F389 (party popper) between the words, and a string in
  which a sun sign stands between the two halves of a surrogate pair.\<close>

definition party_text :: jsstring where
  "party_text = of_ascii ''Test '' @ [0xD83C, 0xDF89] @ of_ascii '' message!!''"

definition split_pair_text :: jsstring where
  "split_pair_text = [0xD83D, 0x2600, 0xDE00]"

definition hello :: jsstring where
  "hello = of_ascii ''Hello''"

definition quiet_host :: host where
  "quiet_host = \<lparr>host_now = of_ascii ''2024-01-01T00:00:00.000Z'',
                  storage_raises = False, render_raises = False\<rparr>"

definition idle_conversation :: conversation where
  "idle_conversation =
     \<lparr>conversationHistory = [], isProcessing = False, historyContent = Some [],
      localStorage = None\<rparr>"

definition busy_conversation :: conversation where
  "busy_conversation = idle_conversation\<lparr>isProcessing := True\<rparr>"

definition relay_down :: turn_env where
  "relay_down =
     \<lparr>user_host = quiet_host, relay_reply = FetchFails, random_value = 1 / 2,
      assistant_host = quiet_host\<rparr>"

definition silent_utterance :: utterance_life where
  "silent_utterance = \<lparr>utterance_started = False, utterance_end = UtteranceSilent\<rparr>"

text \<open>A controller set to the remote producer in a browser without speech synthesis,
  and a world in which the speech relay cannot be reached.\<close>

definition elevenlabs_controller :: tts where
  "elevenlabs_controller =
     \<lparr>audioPlayer = Some \<lparr>audio_src = [], audio_paused = True, audio_currentTime = 0\<rparr>,
      currentProvider = of_ascii ''elevenlabs'', isPlaying = False, speechSynthesis = None,
      currentUtterance = None, onStartCallback = None, onEndCallback = None\<rparr>"

definition speech_down :: speak_env where
  "speech_down =
     \<lparr>speech_reply = SpeechFetchFails, signals = [],
      primary_utterance = silent_utterance, fallback_utterance = silent_utterance\<rparr>"


definition empty_chat_body :: jsval where
  "empty_chat_body = JObj [(of_ascii ''messages'', JArr [])]"

definition vendor_says_hi :: fetch_result where
  "vendor_says_hi =
     Response 200 (Json (JObj [(of_ascii ''choices'',
       JArr [JObj [(of_ascii ''message'',
                    JObj [(of_ascii ''content'', JStr (of_ascii ''Hi''))])]])]))"

definition empty_text_body :: jsval where
  "empty_text_body = JObj [(of_ascii ''text'', JStr [])]"

definition no_environment :: environment where
  "no_environment = \<lparr>ELEVENLABS_API_KEY = JUndefined, ELEVENLABS_VOICE_ID = JUndefined\<rparr>"

text \<open>A connected avatar whose callbacks return, and one whose \<open>onError\<close> raises.\<close>

definition connected_avatar :: heygen where
  "connected_avatar =
     \<lparr>sessionId = JStr (of_ascii ''session-1''), isConnected = True,
      onSpeakingStart = Some \<lparr>handler_id = 1, handler_raises = (\<lambda>u. None)\<rparr>,
      onError = Some \<lparr>handler_id = 2, handler_raises = (\<lambda>e. None)\<rparr>\<rparr>"

definition handler_failure :: js_error where
  "handler_failure = Error (JStr (of_ascii ''toast container missing''))"

definition fragile_avatar :: heygen where
  "fragile_avatar =
     connected_avatar\<lparr>onError := Some \<lparr>handler_id = 2, handler_raises = (\<lambda>e. Some handler_failure)\<rparr>\<rparr>"

text \<open>A connected avatar whose \<open>onSpeakingStart\<close> raises.\<close>

definition startled_avatar :: heygen where
  "startled_avatar =
     connected_avatar\<lparr>onSpeakingStart :=
       Some \<lparr>handler_id = 1, handler_raises = (\<lambda>u. Some handler_failure)\<rparr>\<rparr>"

definition task_created :: fetch_result where
  "task_created = Response 200 (Json (JObj [(of_ascii ''task_id'', JStr (of_ascii ''task-1''))]))"

section \<open>Properties of the backend\<close>

subsection \<open>The word cap\<close>

lemma words_of_Nil: "words_of [] = []"
  by (subst words_of.simps) simp

lemma words_of_dropWhile: "words_of (dropWhile isWhiteSpace s) = words_of s"
  by (subst (1 2) words_of.simps) simp

lemma split_ws_last: "dropWhile nonWhiteSpace s = [] \<Longrightarrow> split_ws s = [s]"
  by (subst split_ws.simps) (simp add: dropWhile_eq_Nil_conv)

lemma split_ws_more:
  "dropWhile nonWhiteSpace s \<noteq> [] \<Longrightarrow>
   split_ws s = takeWhile nonWhiteSpace s # split_ws (dropWhile isWhiteSpace (dropWhile nonWhiteSpace s))"
  using split_ws.simps [of s] by (simp only: if_False)

lemma words_of_word:
  "s \<noteq> [] \<Longrightarrow> nonWhiteSpace (hd s) \<Longrightarrow>
   words_of s = takeWhile nonWhiteSpace s # words_of (dropWhile nonWhiteSpace s)"
  by (subst words_of.simps, cases s) auto

lemma last_dropWhile_ne: "dropWhile P xs \<noteq> [] \<Longrightarrow> last (dropWhile P xs) = last xs"
  by (metis last_appendR takeWhile_dropWhile_id)

text \<open>
  On a text that neither starts nor ends with white space the pieces of the split are
  the words, and the code does what the specification says.
\<close>

lemma split_ws_trimmed:
  "s \<noteq> [] \<Longrightarrow> nonWhiteSpace (hd s) \<Longrightarrow> nonWhiteSpace (last s) \<Longrightarrow> split_ws s = words_of s"
proof (induction s rule: split_ws.induct)
  case (1 s)
  let ?rest = "dropWhile nonWhiteSpace s"
  let ?r = "dropWhile isWhiteSpace ?rest"
  have w: "words_of s = takeWhile nonWhiteSpace s # words_of ?rest"
    using "1.prems"(1,2) by (rule words_of_word)
  show ?case
  proof (cases "?rest = []")
    case True
    then have "takeWhile nonWhiteSpace s = s"
      by (simp add: dropWhile_eq_Nil_conv)
    with w True show ?thesis
      by (simp only: split_ws_last words_of_Nil)
  next
    case False
    have last_rest: "last ?rest = last s"
      using False by (rule last_dropWhile_ne)
    have r_ne: "?r \<noteq> []"
    proof
      assume "?r = []"
      then have "\<forall>u \<in> set ?rest. isWhiteSpace u"
        by (simp only: dropWhile_eq_Nil_conv)
      with False have "isWhiteSpace (last ?rest)"
        using last_in_set by blast
      with last_rest "1.prems"(3) show False by simp
    qed
    have hd_r: "nonWhiteSpace (hd ?r)"
      using r_ne hd_dropWhile by blast
    have last_r: "nonWhiteSpace (last ?r)"
      using last_dropWhile_ne [OF r_ne] last_rest "1.prems"(3) by simp
    have IH: "split_ws ?r = words_of ?r"
      using "1.IH" [OF False r_ne hd_r last_r] .
    have "split_ws s = takeWhile nonWhiteSpace s # words_of ?r"
      using split_ws_more [OF False] IH by (simp only:)
    also have "words_of ?r = words_of ?rest"
      by (rule words_of_dropWhile)
    finally show ?thesis using w by (simp only:)
  qed
qed

lemma truncate_trimmed:
  "s \<noteq> [] \<Longrightarrow> nonWhiteSpace (hd s) \<Longrightarrow> nonWhiteSpace (last s)
   \<Longrightarrow> truncateToMaxWords s k = truncate_spec s k"
  by (simp add: truncateToMaxWords_def truncate_spec_def split_ws_trimmed)

text \<open>
  Claim C1: \<open>truncateToMaxWords(text, k)\<close> returns \<open>text\<close> unchanged if it has at most \<open>k\<close>
  words, and otherwise its first \<open>k\<close> words joined by single spaces and followed by
  \<open>...\<close>. The code counts the empty piece that white space at the start or at the end of
  the text leaves in the split as a word. A reply of fifteen words that starts with a
  space is within the cap of fifteen, yet the code drops its last word and appends the
  marker; a reply of fifteen words that ends with a line break loses the line break
  and gets the marker, although no word is dropped. The claim returns both unchanged.
\<close>

theorem C1_truncate_padded_reply:
  "length (words_of padded_reply) = 15 \<and>
   truncate_spec padded_reply MAX_RESPONSE_WORDS = padded_reply \<and>
   truncateToMaxWords padded_reply MAX_RESPONSE_WORDS = of_ascii '' a b c d e f g h i j k l m n...'' \<and>
   length (words_of reply_with_newline) = 15 \<and>
   truncate_spec reply_with_newline MAX_RESPONSE_WORDS = reply_with_newline \<and>
   truncateToMaxWords reply_with_newline MAX_RESPONSE_WORDS = of_ascii ''a b c d e f g h i j k l m n o...''"
  by code_simp

subsection \<open>Validation of the requests\<close>

lemma truthy_array: "isArray m \<Longrightarrow> truthy m"
  by (cases m) auto

lemma get_prop_Inl: "get_prop v k = Inl e \<longleftrightarrow> (v = JUndefined \<or> v = JNull) \<and> e = TypeError"
  by (cases v) auto

text \<open>
  Claim C8, as amended: \<open>POST /api/chat\<close> answers 400 with \<open>Messages array is required\<close>,
  without contacting the vendor, exactly when the \<open>messages\<close> field of the body is not an
  array (absent, or of another type); every array, the empty one too, passes the check
  and the vendor is contacted once. \<open>POST /api/tts/elevenlabs\<close> answers 400 with
  \<open>Text is required\<close>, without contacting the vendor, exactly when the \<open>text\<close> field is falsy
  (absent, or the empty string); every other text passes and the vendor is contacted
  once.
\<close>

theorem C8_validation:
  "(get_prop chatBody (of_ascii ''messages'') = Inr m \<longrightarrow>
      (if isArray m
       then fst (api_chat chatBody vendor) = chat_reply vendor \<and>
            length (snd (api_chat chatBody vendor)) = 1
       else api_chat chatBody vendor =
              (JsonResponse 400 (error_body (of_ascii ''Messages array is required'')), []))) \<and>
   (get_prop ttsBody (of_ascii ''text'') = Inr t \<longrightarrow>
      (if truthy t
       then fst (api_tts_elevenlabs env ttsBody ttsVendor) = tts_reply ttsVendor \<and>
            length (snd (api_tts_elevenlabs env ttsBody ttsVendor)) = 1
       else api_tts_elevenlabs env ttsBody ttsVendor =
              (JsonResponse 400 (error_body (of_ascii ''Text is required'')), [])))"
  by (simp add: api_chat_def api_tts_elevenlabs_def Let_def truthy_array)

theorem C8_validation_witness:
  "get_prop empty_chat_body (of_ascii ''messages'') = Inr (JArr []) \<and>
   fst (api_chat empty_chat_body FetchFails) = chat_reply FetchFails \<and>
   length (snd (api_chat empty_chat_body FetchFails)) = 1 \<and>
   get_prop empty_text_body (of_ascii ''text'') = Inr (JStr []) \<and>
   api_tts_elevenlabs no_environment empty_text_body TtsFetchFails =
     (JsonResponse 400 (error_body (of_ascii ''Text is required'')), [])"
proof -
  have a: "get_prop empty_chat_body (of_ascii ''messages'') = Inr (JArr [])"
    by code_simp
  have b: "get_prop empty_text_body (of_ascii ''text'') = Inr (JStr [])"
    by code_simp
  from a b show ?thesis
    using C8_validation [where chatBody = empty_chat_body and m = "JArr []" and vendor = FetchFails
        and ttsBody = empty_text_body and t = "JStr []" and env = no_environment
        and ttsVendor = TtsFetchFails]
    by simp
qed

text \<open>
  The claim as stated fails on an empty message list: the request passes the check, the
  vendor is contacted, and its reply is relayed with status 200.
\<close>

theorem C8_empty_messages_counterexample:
  "fst (api_chat empty_chat_body vendor_says_hi) =
     JsonResponse 200
       (JObj [(of_ascii ''response'', JStr (of_ascii ''Hi'')), (of_ascii ''usage'', JUndefined)]) \<and>
   length (snd (api_chat empty_chat_body vendor_says_hi)) = 1"
  by code_simp

section \<open>Properties of the text cleaning\<close>

lemma ws_not_surrogate:
  "isWhiteSpace u \<Longrightarrow> \<not> isHighSurrogate u \<and> \<not> isLowSurrogate u"
  by (auto simp: isWhiteSpace_def isHighSurrogate_def isLowSurrogate_def word_le_nat_alt)

lemma high_not_low: "isHighSurrogate u \<Longrightarrow> \<not> isLowSurrogate u"
  by (auto simp: isHighSurrogate_def isLowSurrogate_def word_le_nat_alt)

lemma well_formed_plain:
  "\<not> isHighSurrogate u \<Longrightarrow> \<not> isLowSurrogate u \<Longrightarrow> well_formed (u # us) = well_formed us"
  by (cases us) simp_all

lemma well_formed_pair:
  "isHighSurrogate u \<Longrightarrow> isLowSurrogate v \<Longrightarrow> well_formed (u # v # us) = well_formed us"
  by simp

lemma code_points_plain:
  "\<not> isHighSurrogate u \<Longrightarrow> code_points (u # us) = uint u # code_points us"
  by (cases us) simp_all

lemma code_points_pair:
  "isHighSurrogate u \<Longrightarrow> isLowSurrogate v \<Longrightarrow>
   code_points (u # v # us) = pairCodePoint u v # code_points us"
  by simp

lemma removeMatching_plain:
  "\<not> isHighSurrogate u \<Longrightarrow>
   removeMatching cls (u # us) =
     (if cls (uint u) then removeMatching cls us else u # removeMatching cls us)"
  by (cases us) simp_all

lemma removeMatching_pair:
  "isHighSurrogate u \<Longrightarrow> isLowSurrogate v \<Longrightarrow>
   removeMatching cls (u # v # us) =
     (if cls (pairCodePoint u v) then removeMatching cls us else u # v # removeMatching cls us)"
  by simp

lemma well_formed_induct [consumes 1, case_names Nil Plain Pair]:
  assumes wf: "well_formed s"
      and nil: "P []"
      and plain: "\<And>u us. \<not> isHighSurrogate u \<Longrightarrow> \<not> isLowSurrogate u \<Longrightarrow> well_formed us \<Longrightarrow>
                    P us \<Longrightarrow> P (u # us)"
      and pair: "\<And>u v us. isHighSurrogate u \<Longrightarrow> isLowSurrogate v \<Longrightarrow> well_formed us \<Longrightarrow>
                    P us \<Longrightarrow> P (u # v # us)"
  shows "P s"
  using wf
proof (induction s rule: well_formed.induct)
  case 1
  show ?case by (rule nil)
next
  case (2 u)
  then show ?case using plain [of u "[]"] nil by simp
next
  case (3 u v us)
  show ?case
  proof (cases "isHighSurrogate u")
    case True
    with "3.prems" have "isLowSurrogate v" "well_formed us" by simp_all
    with True "3.IH"(1) show ?thesis by (simp add: pair)
  next
    case False
    with "3.prems" have "\<not> isLowSurrogate u" "well_formed (v # us)" by simp_all
    with False "3.IH"(2) show ?thesis by (simp add: plain)
  qed
qed

lemma well_formed_append: "well_formed a \<Longrightarrow> well_formed (a @ b) = well_formed b"
  by (induction a rule: well_formed_induct) (simp_all add: well_formed_plain)

lemma code_points_append:
  "well_formed a \<Longrightarrow> code_points (a @ b) = code_points a @ code_points b"
  by (induction a rule: well_formed_induct) (simp_all add: code_points_plain)

lemma well_formed_split:
  "well_formed (a @ u # b) \<Longrightarrow> \<not> isHighSurrogate u \<Longrightarrow> \<not> isLowSurrogate u \<Longrightarrow> well_formed a"
proof (induction a rule: well_formed.induct)
  case 1
  show ?case by simp
next
  case (2 x)
  then show ?case by (auto split: if_splits)
next
  case (3 x y zs)
  then show ?case by (auto split: if_splits)
qed

lemma well_formed_removeMatching: "well_formed s \<Longrightarrow> well_formed (removeMatching cls s)"
  by (induction s rule: well_formed_induct)
     (simp_all add: removeMatching_plain well_formed_plain)

lemma code_points_removeMatching:
  "well_formed s \<Longrightarrow>
   code_points (removeMatching cls s) = filter (\<lambda>c. \<not> cls c) (code_points s)"
  by (induction s rule: well_formed_induct)
     (simp_all add: removeMatching_plain code_points_plain)

lemma removeMatching_twice:
  "well_formed s \<Longrightarrow>
   removeMatching cls2 (removeMatching cls1 s) = removeMatching (\<lambda>c. cls1 c \<or> cls2 c) s"
  by (induction s rule: well_formed_induct)
     (simp_all add: removeMatching_plain)

lemma six_passes:
  assumes "well_formed s"
  shows "removeMatching (inRange 0x2700 0x27BF)
       (removeMatching (inRange 0x2600 0x26FF)
       (removeMatching (inRange 0x1F1E0 0x1F1FF)
       (removeMatching (inRange 0x1F680 0x1F6FF)
       (removeMatching (inRange 0x1F300 0x1F5FF)
       (removeMatching (inRange 0x1F600 0x1F64F) s))))) = removeMatching isEmoji s"
proof -
  have e: "(\<lambda>c. ((((inRange 0x1F600 0x1F64F c \<or> inRange 0x1F300 0x1F5FF c) \<or>
              inRange 0x1F680 0x1F6FF c) \<or> inRange 0x1F1E0 0x1F1FF c) \<or>
              inRange 0x2600 0x26FF c) \<or> inRange 0x2700 0x27BF c) = isEmoji"
    by (rule ext) (simp add: isEmoji_def)
  show ?thesis
    using assms by (simp only: removeMatching_twice e)
qed


lemma words_of_blank: "dropWhile isWhiteSpace s = [] \<Longrightarrow> words_of s = []"
  by (subst words_of.simps) simp

lemma words_of_step:
  "dropWhile isWhiteSpace s \<noteq> [] \<Longrightarrow>
   words_of s = takeWhile nonWhiteSpace (dropWhile isWhiteSpace s) #
                words_of (dropWhile nonWhiteSpace (dropWhile isWhiteSpace s))"
  using words_of.simps [of s] by (simp only: if_False)

lemma words_of_member:
  assumes ne: "dropWhile isWhiteSpace s \<noteq> []" and w: "w \<in> set (words_of s)"
  shows "w = takeWhile nonWhiteSpace (dropWhile isWhiteSpace s) \<or>
         w \<in> set (words_of (dropWhile nonWhiteSpace (dropWhile isWhiteSpace s)))"
  using w by (simp only: words_of_step [OF ne] set_simps insert_iff)

lemma takeWhile_ne: "ys \<noteq> [] \<Longrightarrow> P (hd ys) \<Longrightarrow> takeWhile P ys \<noteq> []"
  by (cases ys) auto

text \<open>Every word is a non-empty run without white space.\<close>

lemma words_of_words:
  "w \<in> set (words_of s) \<Longrightarrow> w \<noteq> [] \<and> (\<forall>u \<in> set w. nonWhiteSpace u)"
proof (induction s rule: words_of.induct)
  case (1 s)
  show ?case
  proof (cases "dropWhile isWhiteSpace s = []")
    case True
    then have "words_of s = []" by (rule words_of_blank)
    with "1.prems" show ?thesis by simp
  next
    case False
    let ?y = "dropWhile isWhiteSpace s"
    let ?w = "takeWhile nonWhiteSpace ?y"
    from False have "nonWhiteSpace (hd ?y)" by (rule hd_dropWhile)
    with False have ne: "?w \<noteq> []"
      by (rule takeWhile_ne)
    have all: "\<forall>u \<in> set ?w. nonWhiteSpace u"
      by (auto dest: set_takeWhileD)
    from False "1.prems" have d: "w = ?w \<or> w \<in> set (words_of (dropWhile nonWhiteSpace ?y))"
      by (rule words_of_member)
    show ?thesis
    proof (rule disjE [OF d])
      assume eq: "w = ?w"
      from ne all show ?thesis unfolding eq by (rule conjI)
    next
      assume "w \<in> set (words_of (dropWhile nonWhiteSpace ?y))"
      then show ?thesis by (rule "1.IH" [OF False])
    qed
  qed
qed

lemma collapse_ws_word:
  "\<forall>u \<in> set w. nonWhiteSpace u \<Longrightarrow> collapse_ws (w @ r) = w @ collapse_ws r"
  by (induction w) simp_all

lemma collapse_ws_blank:
  "r \<noteq> [] \<Longrightarrow> isWhiteSpace (hd r) \<Longrightarrow>
   collapse_ws r = 0x20 # collapse_ws (dropWhile isWhiteSpace r)"
  by (cases r) simp_all

lemma collapse_ws_lead: "collapse_ws s = lead s @ collapse_ws (dropWhile isWhiteSpace s)"
proof (cases "s \<noteq> [] \<and> isWhiteSpace (hd s)")
  case True
  then show ?thesis by (simp add: lead_def collapse_ws_blank)
next
  case False
  then have "dropWhile isWhiteSpace s = s" by (cases s) auto
  with False show ?thesis by (auto simp: lead_def)
qed

lemma join_Cons: "ws \<noteq> [] \<Longrightarrow> join sep (w # ws) = w @ sep @ join sep ws"
  by (cases ws) simp_all

lemma collapse_ws_words:
  "collapse_ws s = lead s @ join [0x20] (words_of s) @ trail s"
proof (induction s rule: words_of.induct)
  case (1 s)
  let ?y = "dropWhile isWhiteSpace s"
  let ?w = "takeWhile nonWhiteSpace ?y"
  let ?rest = "dropWhile nonWhiteSpace ?y"
  have E1: "collapse_ws s = lead s @ collapse_ws ?y"
    by (rule collapse_ws_lead)
  show ?case
  proof (cases "?y = []")
    case True
    have c: "collapse_ws ?y = []" by (simp only: True collapse_ws.simps)
    have j: "words_of s = []" using True by (rule words_of_blank)
    have t: "trail s = []" by (simp only: trail_def True) simp
    show ?thesis unfolding E1 c j t by simp
  next
    case False
    have IH: "collapse_ws ?rest = lead ?rest @ join [0x20] (words_of ?rest) @ trail ?rest"
      using "1.IH" [OF False] .
    have E3: "words_of s = ?w # words_of ?rest"
      using False by (rule words_of_step)
    have "\<forall>u \<in> set ?w. nonWhiteSpace u" by (auto dest: set_takeWhileD)
    then have "collapse_ws (?w @ ?rest) = ?w @ collapse_ws ?rest"
      by (rule collapse_ws_word)
    then have E2: "collapse_ws ?y = ?w @ collapse_ws ?rest"
      by (simp only: takeWhile_dropWhile_id)
    have last_y: "last ?y = last s"
      using False by (rule last_dropWhile_ne)
    show ?thesis
    proof (cases "?rest = []")
      case True
      then have "\<forall>u \<in> set ?y. nonWhiteSpace u"
        by (simp only: dropWhile_eq_Nil_conv)
      with False have "nonWhiteSpace (last ?y)" using last_in_set by blast
      with last_y have t: "trail s = []" by (simp add: trail_def)
      have c: "collapse_ws ?rest = []" by (simp only: True collapse_ws.simps)
      have j: "words_of ?rest = []" by (simp only: True words_of_Nil)
      show ?thesis unfolding E1 E2 E3 c j t by simp
    next
      case rest: False
      have hd_rest: "isWhiteSpace (hd ?rest)"
        using hd_dropWhile [OF rest] by simp
      have lead_rest: "lead ?rest = [0x20]"
        using rest hd_rest by (simp add: lead_def)
      have last_rest: "last ?rest = last s"
        using last_dropWhile_ne [OF rest] last_y by simp
      show ?thesis
      proof (cases "dropWhile isWhiteSpace ?rest = []")
        case True
        have j: "words_of ?rest = []" using True by (rule words_of_blank)
        have t': "trail ?rest = []" by (simp only: trail_def True) simp
        from True have "\<forall>u \<in> set ?rest. isWhiteSpace u"
          by (simp only: dropWhile_eq_Nil_conv)
        with rest have "isWhiteSpace (last ?rest)" using last_in_set by blast
        with last_rest False have t: "trail s = [0x20]" by (simp add: trail_def)
        show ?thesis unfolding E1 E2 E3 IH lead_rest j t t' by simp
      next
        case more: False
        from words_of_step [OF more] obtain v vs where j: "words_of ?rest = v # vs"
          by blast
        have t: "trail ?rest = trail s"
          using more False last_rest by (simp add: trail_def)
        show ?thesis unfolding E1 E2 E3 IH lead_rest j t by simp
      qed
    qed
  qed
qed

lemma space_ws: "isWhiteSpace 0x20"
  by (simp add: isWhiteSpace_def)

lemma space_code: "of_ascii '' '' = [0x20]"
  by (simp add: of_ascii_def)

lemma not_emoji_space: "\<not> isEmoji 32"
  by (simp add: isEmoji_def inRange_def)

lemma lead_blank: "\<forall>u \<in> set (lead s). isWhiteSpace u"
  by (simp add: lead_def space_ws)

lemma trail_blank: "\<forall>u \<in> set (trail s). isWhiteSpace u"
  by (simp add: trail_def space_ws)

lemma dropWhile_all: "\<forall>u \<in> set a. P u \<Longrightarrow> dropWhile P (a @ c) = dropWhile P c"
  by (induction a) simp_all

lemma dropWhile_none: "c \<noteq> [] \<Longrightarrow> \<not> P (hd c) \<Longrightarrow> dropWhile P c = c"
  by (cases c) simp_all

lemma trim_blank:
  assumes "\<forall>u \<in> set a. isWhiteSpace u"
  shows "trim a = []"
proof -
  have "dropWhile isWhiteSpace (a @ []) = dropWhile isWhiteSpace []"
    using assms by (rule dropWhile_all)
  then have e: "dropWhile isWhiteSpace a = []" by simp
  show ?thesis unfolding trim_def e by simp
qed

lemma trim_core:
  assumes m: "m \<noteq> []" "nonWhiteSpace (hd m)" "nonWhiteSpace (last m)"
      and a: "\<forall>u \<in> set a. isWhiteSpace u"
      and b: "\<forall>u \<in> set b. isWhiteSpace u"
  shows "trim (a @ m @ b) = m"
proof -
  have mb: "m @ b \<noteq> []" "nonWhiteSpace (hd (m @ b))" using m by simp_all
  have "dropWhile isWhiteSpace (a @ m @ b) = dropWhile isWhiteSpace (m @ b)"
    using a by (rule dropWhile_all)
  also have "\<dots> = m @ b" using mb by (rule dropWhile_none)
  finally have front: "dropWhile isWhiteSpace (a @ m @ b) = m @ b" .
  have rb: "\<forall>u \<in> set (rev b). isWhiteSpace u" using b by simp
  have rm: "rev m \<noteq> []" "nonWhiteSpace (hd (rev m))" using m by (simp_all add: hd_rev)
  have "dropWhile isWhiteSpace (rev b @ rev m) = dropWhile isWhiteSpace (rev m)"
    using rb by (rule dropWhile_all)
  also have "\<dots> = rev m" using rm by (rule dropWhile_none)
  finally have rear: "dropWhile isWhiteSpace (rev b @ rev m) = rev m" .
  have "trim (a @ m @ b) = rev (dropWhile isWhiteSpace (rev (m @ b)))"
    by (simp only: trim_def front)
  also have "\<dots> = rev (dropWhile isWhiteSpace (rev b @ rev m))"
    by (simp only: rev_append)
  also have "\<dots> = m" by (simp only: rear rev_rev_ident)
  finally show ?thesis .
qed

lemma join_ends:
  assumes "\<forall>w \<in> set ws. w \<noteq> [] \<and> (\<forall>u \<in> set w. nonWhiteSpace u)" and "ws \<noteq> []"
  shows "join sep ws \<noteq> [] \<and> nonWhiteSpace (hd (join sep ws)) \<and> nonWhiteSpace (last (join sep ws))"
  using assms
proof (induction sep ws rule: join.induct)
  case (1 sep)
  then show ?case by simp
next
  case (2 sep x)
  then show ?case by (simp add: hd_in_set)
next
  case (3 sep x y ys)
  then have x: "x \<noteq> []" "nonWhiteSpace (hd x)" by (simp_all add: hd_in_set)
  from 3 have "join sep (y # ys) \<noteq> [] \<and> nonWhiteSpace (last (join sep (y # ys)))" by simp
  with x show ?case by simp
qed

text \<open>Collapsing the white space and trimming leaves the words, one space apart.\<close>

lemma trim_collapse_ws: "trim (collapse_ws s) = join [0x20] (words_of s)"
proof (cases "words_of s = []")
  case True
  have "\<forall>u \<in> set (lead s @ trail s). isWhiteSpace u"
    using lead_blank [of s] trail_blank [of s] by auto
  then have "trim (lead s @ trail s) = []" by (rule trim_blank)
  with True show ?thesis by (simp add: collapse_ws_words)
next
  case False
  have "\<forall>w \<in> set (words_of s). w \<noteq> [] \<and> (\<forall>u \<in> set w. nonWhiteSpace u)"
    using words_of_words by blast
  from join_ends [OF this False, of "[0x20]"] lead_blank [of s] trail_blank [of s]
  have "trim (lead s @ join [0x20] (words_of s) @ trail s) = join [0x20] (words_of s)"
    by (intro trim_core) simp_all
  then show ?thesis by (simp only: collapse_ws_words)
qed

lemma well_formed_dropWhile_ws:
  "well_formed s \<Longrightarrow>
   well_formed (dropWhile isWhiteSpace s) \<and>
   set (code_points (dropWhile isWhiteSpace s)) \<subseteq> set (code_points s)"
proof (induction s)
  case Nil
  show ?case by simp
next
  case (Cons u us)
  show ?case
  proof (cases "isWhiteSpace u")
    case True
    then have ns: "\<not> isHighSurrogate u" "\<not> isLowSurrogate u"
      using ws_not_surrogate by blast+
    with Cons.prems have "well_formed us" by (simp add: well_formed_plain)
    with Cons.IH True ns show ?thesis by (auto simp: code_points_plain)
  next
    case False
    with Cons.prems show ?thesis by simp
  qed
qed

lemma well_formed_word:
  assumes wf: "well_formed y"
  shows "well_formed (takeWhile nonWhiteSpace y) \<and>
         well_formed (dropWhile nonWhiteSpace y) \<and>
         code_points y = code_points (takeWhile nonWhiteSpace y) @
                         code_points (dropWhile nonWhiteSpace y)"
proof (cases "dropWhile nonWhiteSpace y")
  case Nil
  then have t: "takeWhile nonWhiteSpace y = y"
    by (metis append_Nil2 takeWhile_dropWhile_id)
  show ?thesis unfolding Nil t using wf by simp
next
  case (Cons r rs)
  then have "isWhiteSpace r"
    using hd_dropWhile [of nonWhiteSpace y] by simp
  then have ns: "\<not> isHighSurrogate r" "\<not> isLowSurrogate r"
    using ws_not_surrogate by blast+
  have y: "y = takeWhile nonWhiteSpace y @ r # rs"
    using Cons by (metis takeWhile_dropWhile_id)
  with wf have "well_formed (takeWhile nonWhiteSpace y @ r # rs)" by simp
  then have w: "well_formed (takeWhile nonWhiteSpace y)"
    using ns by (rule well_formed_split)
  from well_formed_append [OF w, of "r # rs"] code_points_append [OF w, of "r # rs"] wf y Cons
  show ?thesis using w by simp
qed

lemma well_formed_words:
  "well_formed s \<Longrightarrow>
   \<forall>w \<in> set (words_of s). well_formed w \<and> set (code_points w) \<subseteq> set (code_points s)"
proof (induction s rule: words_of.induct)
  case (1 s)
  let ?y = "dropWhile isWhiteSpace s"
  let ?w = "takeWhile nonWhiteSpace ?y"
  let ?rest = "dropWhile nonWhiteSpace ?y"
  show ?case
  proof (cases "?y = []")
    case True
    then have "words_of s = []" by (rule words_of_blank)
    then show ?thesis by simp
  next
    case False
    have step: "set (words_of s) = insert ?w (set (words_of ?rest))"
      by (simp only: words_of_step [OF False] list.set)
    from well_formed_dropWhile_ws [OF "1.prems"]
    have y: "well_formed ?y" "set (code_points ?y) \<subseteq> set (code_points s)" by blast+
    from well_formed_word [OF y(1)]
    have w: "well_formed ?w" "well_formed ?rest"
      "code_points ?y = code_points ?w @ code_points ?rest" by blast+
    have ih: "\<forall>v \<in> set (words_of ?rest).
                well_formed v \<and> set (code_points v) \<subseteq> set (code_points ?rest)"
      using False w(2) by (rule "1.IH")
    have sub: "set (code_points ?w) \<subseteq> set (code_points s)"
      "set (code_points ?rest) \<subseteq> set (code_points s)"
      using y(2) w(3) by auto
    show ?thesis
      unfolding step using w(1) sub ih by blast
  qed
qed

lemma well_formed_join:
  assumes "\<forall>w \<in> set ws. well_formed w \<and> set (code_points w) \<subseteq> S"
  shows "well_formed (join [0x20] ws) \<and> set (code_points (join [0x20] ws)) \<subseteq> insert 32 S"
  using assms
proof (induction "[0x20] :: jsstring" ws rule: join.induct)
  case 1
  show ?case by simp
next
  case (2 x)
  then show ?case by auto
next
  case (3 x y ys)
  have sp: "\<not> isHighSurrogate (0x20 :: code_unit)" "\<not> isLowSurrogate (0x20 :: code_unit)"
    using ws_not_surrogate [OF space_ws] by blast+
  from 3 have x: "well_formed x" "set (code_points x) \<subseteq> S" by simp_all
  from 3 have j: "well_formed (join [0x20] (y # ys))"
    "set (code_points (join [0x20] (y # ys))) \<subseteq> insert 32 S" by simp_all
  have "well_formed (x @ 0x20 # join [0x20] (y # ys))"
    using x(1) j(1) sp by (simp add: well_formed_append well_formed_plain)
  moreover have "code_points (x @ 0x20 # join [0x20] (y # ys)) =
         code_points x @ 32 # code_points (join [0x20] (y # ys))"
    using x(1) sp by (simp add: code_points_append code_points_plain)
  ultimately show ?case using x(2) j(2) by auto
qed

text \<open>
  Claim C6, as amended: for every input string in which every surrogate is paired
  (well-formed UTF-16), the cleaning that \<open>speak\<close> applies removes exactly the code
  points of the six emoji and symbol ranges and leaves the words of the rest separated
  by single spaces: runs of white space are collapsed to one space and the ends are
  trimmed. The result is well-formed again and holds no code point of the ranges. The
  cleaning is a function of the text alone. In particular \<open>"Test \<dots> message!!"\<close> with the
  party popper U+1F389 between the words is cleaned to \<open>"Test message!!"\<close>.
\<close>

theorem C6_cleanTextForTTS:
  "well_formed input \<Longrightarrow>
     cleanTextForTTS input = clean_spec input \<and>
     code_points (removeMatching isEmoji input) = filter (\<lambda>c. \<not> isEmoji c) (code_points input) \<and>
     well_formed (cleanTextForTTS input) \<and>
     (\<forall>c \<in> set (code_points (cleanTextForTTS input)). \<not> isEmoji c)"
proof -
  assume wf: "well_formed input"
  let ?z = "removeMatching isEmoji input"
  have z: "well_formed ?z" using wf by (rule well_formed_removeMatching)
  have cz: "code_points ?z = filter (\<lambda>c. \<not> isEmoji c) (code_points input)"
    using wf by (rule code_points_removeMatching)
  have eq: "cleanTextForTTS input = join [0x20] (words_of ?z)"
    unfolding cleanTextForTTS_def six_passes [OF wf] by (rule trim_collapse_ws)
  from well_formed_words [OF z]
  have "\<forall>w \<in> set (words_of ?z). well_formed w \<and> set (code_points w) \<subseteq> set (code_points ?z)" .
  from well_formed_join [OF this]
  have j: "well_formed (join [0x20] (words_of ?z))"
    "set (code_points (join [0x20] (words_of ?z))) \<subseteq> insert 32 (set (code_points ?z))"
    by blast+
  have "\<forall>c \<in> set (code_points (join [0x20] (words_of ?z))). \<not> isEmoji c"
    using j(2) cz not_emoji_space by auto
  with eq j(1) cz show ?thesis
    by (simp add: clean_spec_def space_code)
qed

theorem C6_cleanTextForTTS_witness:
  "well_formed party_text \<and>
   cleanTextForTTS party_text = of_ascii ''Test message!!'' \<and>
   clean_spec party_text = of_ascii ''Test message!!'' \<and>
   well_formed (of_ascii ''Test message!!'') \<and>
   filter isEmoji (code_points (of_ascii ''Test message!!'')) = []"
proof -
  have wf: "well_formed party_text" by code_simp
  have ex: "cleanTextForTTS party_text = of_ascii ''Test message!!''" by code_simp
  note t = C6_cleanTextForTTS [OF wf]
  note t1 = t [THEN conjunct1]
  note t3 = t [THEN conjunct2, THEN conjunct2, THEN conjunct1]
  note t4 = t [THEN conjunct2, THEN conjunct2, THEN conjunct2]
  from t1 [symmetric] ex have spec: "clean_spec party_text = of_ascii ''Test message!!''"
    by (rule trans)
  from t3 have wf2: "well_formed (of_ascii ''Test message!!'')"
    by (simp only: ex)
  from t4 have "filter isEmoji (code_points (cleanTextForTTS party_text)) = []"
    by (simp only: filter_empty_conv) 
  then have none: "filter isEmoji (code_points (of_ascii ''Test message!!'')) = []"
    by (simp only: ex)
  from wf ex spec wf2 none show ?thesis by (intro conjI)
qed

text \<open>
  The claim as stated fails on a string with unpaired surrogates: the passes run one
  after the other, and deleting the sun sign U+2600 in the fifth pass joins the two
  surrogates around it into U+1F600, an emoticon of the range that the first pass had
  already gone through. The cleaned text then holds an emoji.
\<close>

theorem C6_split_pair_counterexample:
  "cleanTextForTTS split_pair_text = [0xD83D, 0xDE00] \<and>
   code_points (cleanTextForTTS split_pair_text) = [0x1F600] \<and>
   isEmoji 0x1F600"
  by code_simp

section \<open>Properties of the speech controller\<close>

subsection \<open>Fallback of the producers\<close>

lemma provider_names:
  "of_ascii ''elevenlabs'' \<noteq> of_ascii ''browser''"
  "of_ascii ''openai'' \<noteq> of_ascii ''browser''"
  "of_ascii ''openai'' \<noteq> of_ascii ''elevenlabs''"
  by (simp_all add: of_ascii_def)

lemma remote_throws_rejects:
  assumes "remote_throws s reply" and "audioPlayer s1 = audioPlayer s"
  shows "\<exists>e. speakWithRemote p s1 input reply sigs = (Rejected e, s1, [ProducerRun p input])"
  using assms
  by (auto simp: remote_throws_def speakWithRemote_def playAudio_def
           split: speech_fetch.splits blob_result.splits)

lemma run_callback_filters:
  "filter is_producer_run (run_callback cb StartCallback) = []"
  "filter is_producer_run (run_callback cb EndCallback) = []"
  "filter is_browser_run (run_callback cb StartCallback) = []"
  "filter is_browser_run (run_callback cb EndCallback) = []"
  "filter is_audio_error_run (run_callback cb StartCallback) = []"
  "filter is_audio_error_run (run_callback cb EndCallback) = []"
  "filter is_end_callback (run_callback cb StartCallback) = []"
  "filter is_start_callback (run_callback cb EndCallback) = []"
  "length (filter is_start_callback (run_callback cb StartCallback)) \<le> Suc 0"
  by (simp_all add: run_callback_def split: option.splits)

lemma speakWithBrowser_events:
  assumes "speakWithBrowser s input life = (r, s', ev)"
  shows "filter is_producer_run ev = [ProducerRun BrowserTTS input]"
    and "filter is_browser_run ev = [ProducerRun BrowserTTS input]"
    and "length (filter is_start_callback ev) \<le> 1"
    and "filter is_audio_error_run ev = []"
    and "(\<exists>e. r = Rejected e) \<longleftrightarrow> browser_throws s life"
    and "(\<exists>e. r = Rejected e) \<Longrightarrow> filter is_end_callback ev = []"
  using assms
  by (auto simp: speakWithBrowser_def browser_throws_def Let_def run_callback_filters
           split: option.splits utterance_end.splits if_splits prod.splits)


lemma speak_remote_fallback:
  assumes prov: "currentProvider s = of_ascii ''elevenlabs'' \<or> currentProvider s = of_ascii ''openai''"
      and thr: "remote_throws s (speech_reply env)"
  shows "\<exists>p e s1.
           s1 = s\<lparr>onStartCallback := onStart, onEndCallback := onEnd\<rparr> \<and>
           speak s input onStart onEnd env =
             (fst (speakWithBrowser s1 (cleanTextForTTS input) (fallback_utterance env)),
              fst (snd (speakWithBrowser s1 (cleanTextForTTS input) (fallback_utterance env))),
              ProducerRun p (cleanTextForTTS input) #
              snd (snd (speakWithBrowser s1 (cleanTextForTTS input) (fallback_utterance env)))) \<and>
           p \<noteq> BrowserTTS"
proof -
  let ?s1 = "s\<lparr>onStartCallback := onStart, onEndCallback := onEnd\<rparr>"
  let ?t = "cleanTextForTTS input"
  have ap: "audioPlayer ?s1 = audioPlayer s" by simp
  from prov show ?thesis
  proof
    assume p: "currentProvider s = of_ascii ''elevenlabs''"
    from remote_throws_rejects [OF thr ap, of ElevenLabsTTS ?t "signals env"]
    obtain e where "speakWithRemote ElevenLabsTTS ?s1 ?t (speech_reply env) (signals env)
                      = (Rejected e, ?s1, [ProducerRun ElevenLabsTTS ?t])" by blast
    with p show ?thesis
      by (simp add: speak_def speakWithElevenLabs_def Let_def provider_names split: prod.splits)
  next
    assume p: "currentProvider s = of_ascii ''openai''"
    from remote_throws_rejects [OF thr ap, of OpenAITTS ?t "signals env"]
    obtain e where "speakWithRemote OpenAITTS ?s1 ?t (speech_reply env) (signals env)
                      = (Rejected e, ?s1, [ProducerRun OpenAITTS ?t])" by blast
    with p show ?thesis
      by (simp add: speak_def speakWithOpenAI_def Let_def provider_names split: prod.splits)
  qed
qed


lemma audio_signals_no_producer:
  "filter is_producer_run (snd (audio_signals sigs s)) = []"
proof (induction sigs arbitrary: s)
  case Nil
  show ?case by simp
next
  case (Cons sig sigs)
  obtain s1 ev1 where h: "(case sig of
               PlaySignal \<Rightarrow> onAudioStart s
             | EndedSignal \<Rightarrow> onAudioEnd s
             | ErrorSignal \<Rightarrow> onAudioError s PlaybackError
             | PlayRejected \<Rightarrow> onAudioError s PlaybackError) = (s1, ev1)"
    by (cases "(case sig of
               PlaySignal \<Rightarrow> onAudioStart s
             | EndedSignal \<Rightarrow> onAudioEnd s
             | ErrorSignal \<Rightarrow> onAudioError s PlaybackError
             | PlayRejected \<Rightarrow> onAudioError s PlaybackError)") auto
  then have "filter is_producer_run ev1 = []"
    by (cases sig)
       (auto simp: onAudioStart_def onAudioEnd_def onAudioError_def run_callback_filters)
  with h Cons.IH [of s1] show ?case
    by (auto simp: Let_def split: prod.splits)
qed

lemma audio_signals_no_producer_pair:
  "audio_signals sigs s = (s', ev) \<Longrightarrow> filter is_producer_run ev = []"
  using audio_signals_no_producer [of sigs s] by simp

lemma playAudio_no_producer:
  "playAudio s url sigs = (r, s', ev) \<Longrightarrow> filter is_producer_run ev = []"
  by (auto simp: playAudio_def Let_def split: option.splits prod.splits
           dest: audio_signals_no_producer_pair)

lemma speakWithRemote_producers:
  "filter is_producer_run (snd (snd (speakWithRemote p s input reply sigs))) = [ProducerRun p input]"
  by (cases reply)
     (auto simp: speakWithRemote_def Let_def split: blob_result.splits prod.splits
           dest: playAudio_no_producer)

lemma speakWithBrowser_producers:
  "filter is_producer_run (snd (snd (speakWithBrowser s input life))) = [ProducerRun BrowserTTS input]"
  using speakWithBrowser_events(1) [of s input life] by (cases "speakWithBrowser s input life") auto

lemma speak_producers_le_2:
  "length (filter is_producer_run (snd (snd (speak s input onStart onEnd env)))) \<le> 2"
proof -
  let ?s1 = "s\<lparr>onStartCallback := onStart, onEndCallback := onEnd\<rparr>"
  let ?t = "cleanTextForTTS input"
  let ?primary = "(if currentProvider ?s1 = of_ascii ''elevenlabs''
             then speakWithElevenLabs ?s1 ?t (speech_reply env) (signals env)
             else if currentProvider ?s1 = of_ascii ''openai''
             then speakWithOpenAI ?s1 ?t (speech_reply env) (signals env)
             else speakWithBrowser ?s1 ?t (primary_utterance env))"
  obtain r s2 ev where pr: "?primary = (r, s2, ev)" by (cases ?primary) auto
  have one: "length (filter is_producer_run ev) = 1"
  proof -
    have "length (filter is_producer_run (snd (snd ?primary))) = 1"
      by (simp add: speakWithElevenLabs_def speakWithOpenAI_def speakWithRemote_producers
          speakWithBrowser_producers)
    with pr show ?thesis by simp
  qed
  have sp: "speak s input onStart onEnd env =
     (case r of
         Rejected error \<Rightarrow>
           if currentProvider s2 \<noteq> of_ascii ''browser'' then
             (let (r3, s3, ev3) = speakWithBrowser s2 ?t (fallback_utterance env)
              in (r3, s3, ev @ ev3))
           else
             (let (s3, ev3) = onAudioError s2 error in (Resolved (), s3, ev @ ev3))
       | Resolved u \<Rightarrow> (Resolved u, s2, ev)
       | Pending \<Rightarrow> (Pending, s2, ev))"
    using pr unfolding speak_def Let_def by simp
  show ?thesis
  proof (cases r)
    case (Rejected error)
    have "length (filter is_producer_run (snd (snd (speakWithBrowser s2 ?t (fallback_utterance env))))) = 1"
      by (simp add: speakWithBrowser_producers)
    with one Rejected sp show ?thesis
      by (auto simp: Let_def onAudioError_def run_callback_filters split: prod.splits)
  next
    case (Resolved u)
    with one sp show ?thesis by simp
  next
    case Pending
    with one sp show ?thesis by simp
  qed
qed

lemma speak_fallback_outcome:
  assumes "currentProvider s = of_ascii ''elevenlabs'' \<or> currentProvider s = of_ascii ''openai''"
      and "remote_throws s (speech_reply env)"
  shows "case speak s input onStart onEnd env of
           (r, s', ev) \<Rightarrow>
             length (filter is_browser_run ev) = 1 \<and>
             length (filter is_producer_run ev) = 2 \<and>
             length (filter is_start_callback ev) \<le> 1 \<and>
             filter is_audio_error_run ev = [] \<and>
             ((\<exists>e. r = Rejected e) \<longleftrightarrow> browser_throws s (fallback_utterance env)) \<and>
             ((\<exists>e. r = Rejected e) \<longrightarrow> filter is_end_callback ev = [])"
proof -
  let ?s1 = "s\<lparr>onStartCallback := onStart, onEndCallback := onEnd\<rparr>"
  let ?b = "speakWithBrowser ?s1 (cleanTextForTTS input) (fallback_utterance env)"
  obtain r s3 ev3 where b: "?b = (r, s3, ev3)" by (cases ?b) auto
  from speak_remote_fallback [where s = s and env = env and onStart = onStart and onEnd = onEnd and input = input] assms b
  obtain p where sp: "speak s input onStart onEnd env = (r, s3, ProducerRun p (cleanTextForTTS input) # ev3)"
    and p: "p \<noteq> BrowserTTS" by auto
  have bt: "browser_throws ?s1 (fallback_utterance env) = browser_throws s (fallback_utterance env)"
    by (simp add: browser_throws_def)
  note ev = speakWithBrowser_events [OF b]
  show ?thesis
    using sp p ev bt by simp
qed

lemma speak_browser_failure_handled:
  assumes "currentProvider s = of_ascii ''browser''"
      and "browser_throws s (primary_utterance env)"
  shows "case speak s input onStart onEnd env of
           (r, s', ev) \<Rightarrow>
             r = Resolved () \<and>
             length (filter is_audio_error_run ev) = 1 \<and>
             filter is_end_callback ev = run_callback onEnd EndCallback"
proof -
  let ?s1 = "s\<lparr>onStartCallback := onStart, onEndCallback := onEnd\<rparr>"
  let ?b = "speakWithBrowser ?s1 (cleanTextForTTS input) (primary_utterance env)"
  obtain r s2 ev where b: "?b = (r, s2, ev)" by (cases ?b) auto
  have bt: "browser_throws ?s1 (primary_utterance env)"
    using assms(2) by (simp add: browser_throws_def)
  note ev = speakWithBrowser_events [OF b]
  from ev(5) bt obtain e where r: "r = Rejected e" by blast
  with ev(6) have noend: "filter is_end_callback ev = []" by blast
  have cb: "onEndCallback s2 = onEnd" "currentProvider s2 = of_ascii ''browser''"
    using b r assms(1)
    by (auto simp: speakWithBrowser_def Let_def split: option.splits utterance_end.splits if_splits prod.splits)
  have "speak s input onStart onEnd env =
          (Resolved (), s2\<lparr>isPlaying := False\<rparr>, ev @ AudioErrorRun e # run_callback onEnd EndCallback)"
    using b r cb assms(1)
    by (simp add: speak_def Let_def provider_names [symmetric] onAudioError_def)
  with ev(4) noend show ?thesis
    by (simp add: run_callback_def split: option.splits)
qed

text \<open>
  Claim C5, at a call in which both producers fail: the controller is set to
  \<open>elevenlabs\<close>, the speech relay cannot be reached, and the browser has no speech
  synthesis. The remote producer runs and throws, the local producer runs once and
  throws, and the call ends there: the exception of the fallback leaves the \<open>catch\<close> block
  of \<open>speak\<close> as the rejection of its promise. The log holds the two producers and nothing
  else, so neither \<open>onAudioError\<close> nor any callback ran. The same failure of the local
  producer in the sibling branch, where the configured producer is \<open>browser\<close>, is handed
  to \<open>onAudioError\<close>, and the call resolves.
\<close>

theorem C5_double_failure_unreported:
  "speak elevenlabs_controller hello (Some 1) (Some 2) speech_down =
     (Rejected SynthesisUnsupported,
      elevenlabs_controller\<lparr>onStartCallback := Some 1, onEndCallback := Some 2\<rparr>,
      [ProducerRun ElevenLabsTTS hello, ProducerRun BrowserTTS hello]) \<and>
   speak (elevenlabs_controller\<lparr>currentProvider := of_ascii ''browser''\<rparr>)
         hello (Some 1) (Some 2) speech_down =
     (Resolved (),
      elevenlabs_controller\<lparr>currentProvider := of_ascii ''browser'',
                            onStartCallback := Some 1, onEndCallback := Some 2\<rparr>,
      [ProducerRun BrowserTTS hello, AudioErrorRun SynthesisUnsupported, EndCallback 2])"
proof -
  have clean: "cleanTextForTTS hello = hello"
    by code_simp
  have remote: "speak elevenlabs_controller hello (Some 1) (Some 2) speech_down =
     (Rejected SynthesisUnsupported,
      elevenlabs_controller\<lparr>onStartCallback := Some 1, onEndCallback := Some 2\<rparr>,
      [ProducerRun ElevenLabsTTS hello, ProducerRun BrowserTTS hello])"
    by (simp add: speak_def clean speakWithElevenLabs_def speakWithRemote_def speakWithBrowser_def
        elevenlabs_controller_def speech_down_def provider_names)
  have browser: "speak (elevenlabs_controller\<lparr>currentProvider := of_ascii ''browser''\<rparr>)
         hello (Some 1) (Some 2) speech_down =
     (Resolved (),
      elevenlabs_controller\<lparr>currentProvider := of_ascii ''browser'',
                            onStartCallback := Some 1, onEndCallback := Some 2\<rparr>,
      [ProducerRun BrowserTTS hello, AudioErrorRun SynthesisUnsupported, EndCallback 2])"
    by (simp add: speak_def clean speakWithBrowser_def onAudioError_def run_callback_def
        elevenlabs_controller_def speech_down_def provider_names [symmetric])
  from remote browser show ?thesis by simp
qed

subsection \<open>Stopping\<close>



section \<open>Properties of the conversation controller\<close>

subsection \<open>The history\<close>

lemma slice_from_neg: "0 < n \<Longrightarrow> slice_from (- int n) xs = drop (length xs - n) xs"
  by (auto simp: slice_from_def Let_def max_def nat_diff_distrib')

lemma addToHistory_history:
  "conversationHistory (snd (addToHistory h r c s)) =
     (let pushed = conversationHistory s @ [\<lparr>msg_role = r, msg_content = c, msg_timestamp = host_now h\<rparr>]
      in drop (length pushed - maxHistoryMessages) pushed)"
proof -
  have pos: "0 < maxHistoryMessages" by (simp add: maxHistoryMessages_def)
  show ?thesis
    by (simp add: addToHistory_def renderHistoryMessage_def saveHistory_def Let_def
        slice_from_neg [OF pos] split: option.splits)
qed

lemma addToHistory_isProcessing:
  "isProcessing (snd (addToHistory h r c s)) = isProcessing s"
  by (simp add: addToHistory_def renderHistoryMessage_def saveHistory_def Let_def
      split: option.splits)

lemma addToHistory_ok:
  "\<not> render_raises h \<Longrightarrow> fst (addToHistory h r c s) = None"
  by (simp add: addToHistory_def renderHistoryMessage_def saveHistory_def Let_def
      split: option.splits)

lemma addToHistory_error:
  "fst (addToHistory h r c s) = Some e \<Longrightarrow> e = DOMException"
  by (simp add: addToHistory_def renderHistoryMessage_def saveHistory_def Let_def
      split: option.splits if_splits)

lemma addToHistory_error_pair:
  "addToHistory h r c s = (Some e, s') \<Longrightarrow> e = DOMException"
  using addToHistory_error [of h r c s e] by simp

text \<open>
  Claim C2: after \<open>addToHistory\<close> has appended a message, the history has at most
  \<open>CONFIG.UI.maxHistoryMessages\<close> entries, and it holds exactly the most recent entries
  of the old history followed by the new message, in their order: what is cut off is
  cut off at the old end. This holds for every history, whatever its length was, and
  also when rendering the message raises afterwards.
\<close>

theorem C2_addToHistory_bounded:
  "length (conversationHistory (snd (addToHistory h r c s))) \<le> maxHistoryMessages \<and>
   conversationHistory (snd (addToHistory h r c s)) =
     (let pushed = conversationHistory s @ [\<lparr>msg_role = r, msg_content = c, msg_timestamp = host_now h\<rparr>]
      in drop (length pushed - maxHistoryMessages) pushed)"
  by (simp add: addToHistory_history Let_def maxHistoryMessages_def)

subsection \<open>A turn that is refused\<close>

lemma sendMessage_begin_busy:
  "isProcessing s \<Longrightarrow> sendMessage_begin h s userMessage = (Inl busy_error, s)"
  by (simp add: sendMessage_begin_def)

text \<open>
  Claim C3: while a turn is processing, \<open>sendMessage\<close> rejects at once with the error
  \<open>Already processing a message\<close> and leaves the controller as it was, its history
  included; the refused call is not queued, the outstanding calls stay as they were.
\<close>

theorem C3_busy_rejected:
  "isProcessing s \<Longrightarrow>
     sendMessage env s userMessage = (Rejected busy_error, s) \<and>
     step (Submit h userMessage) \<lparr>controller = s, outstanding = calls\<rparr>
       = \<lparr>controller = s, outstanding = calls\<rparr>"
  by (simp add: sendMessage_def sendMessage_begin_def)

theorem C3_busy_rejected_witness:
  "isProcessing busy_conversation \<and>
   sendMessage relay_down busy_conversation hello = (Rejected busy_error, busy_conversation) \<and>
   step (Submit quiet_host hello) \<lparr>controller = busy_conversation, outstanding = [[]]\<rparr>
     = \<lparr>controller = busy_conversation, outstanding = [[]]\<rparr>"
proof -
  have busy: "isProcessing busy_conversation"
    by (simp add: busy_conversation_def)
  from busy C3_busy_rejected [OF busy, of relay_down hello quiet_host "[[]]"]
  show ?thesis by simp
qed

subsection \<open>A turn whose relay call fails\<close>

lemma length_fallbackResponses: "length fallbackResponses = 5"
  by (simp add: fallbackResponses_def)

lemma getFallbackResponse_in:
  assumes "0 \<le> rnd" "rnd < 1"
  shows "\<exists>f \<in> set fallbackResponses. getFallbackResponse rnd v = JStr f"
proof -
  let ?i = "\<lfloor>rnd * real (length fallbackResponses)\<rfloor>"
  have "0 \<le> ?i" using assms by (simp add: length_fallbackResponses)
  moreover have "?i < 5" using assms by (simp add: length_fallbackResponses floor_less_iff)
  ultimately have "nat ?i < length fallbackResponses"
    and "0 \<le> ?i \<and> ?i < int (length fallbackResponses)"
    unfolding length_fallbackResponses by linarith+
  then show ?thesis
    unfolding getFallbackResponse_def Let_def using nth_mem by auto
qed

lemma callClaudeAPI_fails:
  "relay_fails relay \<Longrightarrow>
   callClaudeAPI relay rnd messages =
     getFallbackResponse rnd (js_or (case messages of [] \<Rightarrow> JUndefined | ms \<Rightarrow> snd (last ms)) (JStr []))"
  by (auto simp: relay_fails_def callClaudeAPI_def Let_def split: fetch_result.splits)

lemma trim_after_push:
  assumes "0 < n"
  shows "drop (length (drop (length ys - n) ys @ [b]) - n) (drop (length ys - n) ys @ [b])
         = drop (length (ys @ [b]) - n) (ys @ [b])"
proof (cases "length ys \<le> n")
  case True
  then show ?thesis by simp
next
  case False
  define k where "k = length ys - n"
  from False assms have k: "Suc k \<le> length ys" "length ys - k = n" "Suc (length ys) - n = Suc k"
    by (simp_all add: k_def)
  have "drop (length (drop k ys @ [b]) - n) (drop k ys @ [b]) = drop (Suc 0) (drop k ys @ [b])"
    using k by simp
  also have "\<dots> = drop (Suc k) ys @ [b]"
    using k by simp
  also have "\<dots> = drop (length (ys @ [b]) - n) (ys @ [b])"
    using k by simp
  finally show ?thesis by (simp only: k_def)
qed

lemma trim_twice:
  assumes "0 < n"
  shows "drop (length (drop (length (xs @ [a]) - n) (xs @ [a]) @ [b]) - n)
        (drop (length (xs @ [a]) - n) (xs @ [a]) @ [b])
   = drop (length (xs @ [a, b]) - n) (xs @ [a, b])"
  using trim_after_push [OF assms, of "xs @ [a]" b] by simp

text \<open>
  Claim C4: when the call to the chat relay fails (a network error or a response that is
  not 2xx), \<open>sendMessage\<close> resolves with one of the five fixed fallback lines, and the
  history gains exactly two messages at its end, the user's message with the submitted
  text and the assistant's message with the chosen line (entries at the old end are
  cut off beyond the maximum). The call is one that was admitted (no turn was
  processing), \<open>Math.random()\<close> is in its range, and rendering the two messages does not
  raise: the unexpected local errors of the bookkeeping are the one thing that the
  specification lets a turn fail with.
\<close>

theorem C4_relay_failure_fallback:
  assumes idle: "\<not> isProcessing s"
      and fails: "relay_fails (relay_reply env)"
      and rnd: "0 \<le> random_value env" "random_value env < 1"
      and dom: "\<not> render_raises (user_host env)" "\<not> render_raises (assistant_host env)"
  shows "\<exists>f \<in> set fallbackResponses.
           fst (sendMessage env s userMessage) = Resolved (JStr f) \<and>
           conversationHistory (snd (sendMessage env s userMessage)) =
             (let h = conversationHistory s @
                        [\<lparr>msg_role = User, msg_content = JStr userMessage,
                          msg_timestamp = host_now (user_host env)\<rparr>,
                         \<lparr>msg_role = Assistant, msg_content = JStr f,
                          msg_timestamp = host_now (assistant_host env)\<rparr>]
              in drop (length h - maxHistoryMessages) h) \<and>
           \<not> isProcessing (snd (sendMessage env s userMessage)) \<and>
           length fallbackResponses = 5"
proof -
  have pos: "0 < maxHistoryMessages" by (simp add: maxHistoryMessages_def)
  let ?u = "\<lparr>msg_role = User, msg_content = JStr userMessage,
             msg_timestamp = host_now (user_host env)\<rparr>"
  obtain s1 where a1:
    "addToHistory (user_host env) User (JStr userMessage) (s\<lparr>isProcessing := True\<rparr>) = (None, s1)"
    using addToHistory_ok [OF dom(1)] by (metis prod.collapse)
  let ?msgs = "map (\<lambda>m. (msg_role m, msg_content m)) (conversationHistory s1)"
  obtain f where f: "f \<in> set fallbackResponses"
    and call: "callClaudeAPI (relay_reply env) (random_value env) ?msgs = JStr f"
    using getFallbackResponse_in [OF rnd] callClaudeAPI_fails [OF fails] by metis
  let ?a = "\<lparr>msg_role = Assistant, msg_content = JStr f,
             msg_timestamp = host_now (assistant_host env)\<rparr>"
  obtain s2 where a2: "addToHistory (assistant_host env) Assistant (JStr f) s1 = (None, s2)"
    using addToHistory_ok [OF dom(2)] by (metis prod.collapse)
  have beg: "sendMessage_begin (user_host env) s userMessage = (Inr ?msgs, s1)"
    using idle a1 by (simp add: sendMessage_begin_def)
  have res: "sendMessage_resume (assistant_host env) (relay_reply env) (random_value env) s1 ?msgs
                  = (Resolved (JStr f), s2\<lparr>isProcessing := False\<rparr>)"
    using a2 call by (simp add: sendMessage_resume_def)
  have sm: "sendMessage env s userMessage = (Resolved (JStr f), s2\<lparr>isProcessing := False\<rparr>)"
    using beg res by (simp add: sendMessage_def)
  have h1: "conversationHistory s1 =
              drop (length (conversationHistory s @ [?u]) - maxHistoryMessages)
                   (conversationHistory s @ [?u])"
    using addToHistory_history [of "user_host env" User "JStr userMessage" "s\<lparr>isProcessing := True\<rparr>"] a1
    by (simp add: Let_def)
  have h2: "conversationHistory s2 =
              drop (length (conversationHistory s1 @ [?a]) - maxHistoryMessages)
                   (conversationHistory s1 @ [?a])"
    using addToHistory_history [of "assistant_host env" Assistant "JStr f" s1] a2
    by (simp add: Let_def)
  have hist: "conversationHistory s2 =
                drop (length (conversationHistory s @ [?u, ?a]) - maxHistoryMessages)
                     (conversationHistory s @ [?u, ?a])"
    unfolding h2 h1 by (rule trim_twice [OF pos])
  show ?thesis
    using f sm hist length_fallbackResponses by (intro bexI [of _ f]) (simp_all add: Let_def)
qed

theorem C4_relay_failure_fallback_witness:
  "\<not> isProcessing idle_conversation \<and> relay_fails (relay_reply relay_down) \<and>
   0 \<le> random_value relay_down \<and> random_value relay_down < 1 \<and>
   \<not> render_raises (user_host relay_down) \<and> \<not> render_raises (assistant_host relay_down) \<and>
   (\<exists>f \<in> set fallbackResponses.
      fst (sendMessage relay_down idle_conversation hello) = Resolved (JStr f) \<and>
      conversationHistory (snd (sendMessage relay_down idle_conversation hello)) =
        (let h = conversationHistory idle_conversation @
                   [\<lparr>msg_role = User, msg_content = JStr hello,
                     msg_timestamp = host_now (user_host relay_down)\<rparr>,
                    \<lparr>msg_role = Assistant, msg_content = JStr f,
                     msg_timestamp = host_now (assistant_host relay_down)\<rparr>]
         in drop (length h - maxHistoryMessages) h) \<and>
      \<not> isProcessing (snd (sendMessage relay_down idle_conversation hello)) \<and>
      length fallbackResponses = 5)"
proof -
  have h: "\<not> isProcessing idle_conversation" "relay_fails (relay_reply relay_down)"
    "0 \<le> random_value relay_down" "random_value relay_down < 1"
    "\<not> render_raises (user_host relay_down)" "\<not> render_raises (assistant_host relay_down)"
    by (simp_all add: idle_conversation_def relay_down_def relay_fails_def quiet_host_def)
  from h C4_relay_failure_fallback [OF h, of hello] show ?thesis by blast
qed

subsection \<open>The flag of a turn\<close>

lemma clearHistory_isProcessing: "isProcessing (clearHistory h s) = isProcessing s"
  by (simp add: clearHistory_def saveHistory_def Let_def)

lemma sendMessage_resume_idle:
  "\<not> isProcessing (snd (sendMessage_resume h relay rnd s messages))"
  by (simp add: sendMessage_resume_def Let_def split: prod.splits option.splits)

lemma sendMessage_resume_not_busy:
  "fst (sendMessage_resume h relay rnd s messages) \<noteq> Rejected busy_error"
proof (cases "addToHistory h Assistant (callClaudeAPI relay rnd messages) s")
  case (Pair err c)
  show ?thesis
  proof (cases err)
    case None
    with Pair show ?thesis by (simp add: sendMessage_resume_def)
  next
    case (Some e)
    with Pair have "e = DOMException" by (simp add: addToHistory_error_pair)
    with Some Pair show ?thesis by (simp add: sendMessage_resume_def busy_error_def)
  qed
qed

lemma sendMessage_begin_cases:
  assumes "\<not> isProcessing s"
  shows "(\<exists>e c. sendMessage_begin h s userMessage = (Inl e, c) \<and> e = DOMException \<and> \<not> isProcessing c) \<or>
         (\<exists>request c. sendMessage_begin h s userMessage = (Inr request, c) \<and> isProcessing c)"
proof (cases "addToHistory h User (JStr userMessage) (s\<lparr>isProcessing := True\<rparr>)")
  case (Pair err c)
  have p: "isProcessing c"
    using addToHistory_isProcessing [of h User "JStr userMessage" "s\<lparr>isProcessing := True\<rparr>"] Pair
    by simp
  show ?thesis
  proof (cases err)
    case None
    with Pair assms p show ?thesis by (simp add: sendMessage_begin_def)
  next
    case (Some e)
    with Pair addToHistory_error [of h User "JStr userMessage" "s\<lparr>isProcessing := True\<rparr>" e]
    have "e = DOMException" by simp
    with Some Pair assms show ?thesis by (simp add: sendMessage_begin_def)
  qed
qed

lemma sendMessage_idle_after:
  assumes "\<not> isProcessing s"
  shows "\<not> isProcessing (snd (sendMessage env s userMessage))"
  using sendMessage_begin_cases [OF assms, of "user_host env" userMessage]
  by (auto simp: sendMessage_def sendMessage_resume_idle)

lemma step_flag_matches:
  assumes "flag_matches sys"
  shows "flag_matches (step e sys)"
proof (cases e)
  case (Submit h userMessage)
  show ?thesis
  proof (cases "isProcessing (controller sys)")
    case True
    with Submit assms show ?thesis
      by (simp add: sendMessage_begin_busy)
  next
    case False
    with assms have "outstanding sys = []" by (simp add: flag_matches_def)
    with Submit sendMessage_begin_cases [OF False, of h userMessage] show ?thesis
      by (auto simp: flag_matches_def)
  qed
next
  case (RelayReplies h reply rnd)
  show ?thesis
  proof (cases "outstanding sys")
    case Nil
    with RelayReplies assms show ?thesis by simp
  next
    case (Cons request rest)
    with assms have "rest = []" by (simp add: flag_matches_def)
    with Cons RelayReplies show ?thesis
      by (simp add: flag_matches_def sendMessage_resume_idle)
  qed
next
  case (ClearHistory h)
  with assms show ?thesis
    by (simp add: flag_matches_def clearHistory_isProcessing)
qed

lemma run_flag_matches: "flag_matches sys \<Longrightarrow> flag_matches (run es sys)"
  by (induction es arbitrary: sys) (simp_all add: step_flag_matches)

text \<open>
  Claim C9: after every call of \<open>sendMessage\<close> that was admitted, whether it resolves with
  a reply or rejects with an error of the history bookkeeping (before or after the relay
  call), the flag \<open>isProcessing\<close> is false again. A call is rejected as busy exactly when
  the flag is set at its start; and over any sequence of submissions, replies of the
  relay and clearings of the history, starting from a controller at rest, the flag is
  set exactly while a call is outstanding. So the controller cannot stay stuck
  rejecting submissions once no call is outstanding.
\<close>

theorem C9_flag_released:
  "(\<not> isProcessing s \<longrightarrow> \<not> isProcessing (snd (sendMessage env s userMessage))) \<and>
   (fst (sendMessage env s userMessage) = Rejected busy_error \<longleftrightarrow> isProcessing s) \<and>
   (\<not> isProcessing c0 \<longrightarrow>
      (isProcessing (controller (run es \<lparr>controller = c0, outstanding = []\<rparr>)) \<longleftrightarrow>
       outstanding (run es \<lparr>controller = c0, outstanding = []\<rparr>) \<noteq> []))"
proof (intro conjI impI)
  assume "\<not> isProcessing s"
  then show "\<not> isProcessing (snd (sendMessage env s userMessage))"
    by (rule sendMessage_idle_after)
next
  show "fst (sendMessage env s userMessage) = Rejected busy_error \<longleftrightarrow> isProcessing s"
  proof (cases "isProcessing s")
    case True
    then show ?thesis by (simp add: sendMessage_def sendMessage_begin_busy)
  next
    case False
    from sendMessage_begin_cases [OF False, of "user_host env" userMessage]
    have "fst (sendMessage env s userMessage) \<noteq> Rejected busy_error"
      by (auto simp: sendMessage_def busy_error_def sendMessage_resume_not_busy [unfolded busy_error_def])
    with False show ?thesis by simp
  qed
next
  assume "\<not> isProcessing c0"
  then have "flag_matches \<lparr>controller = c0, outstanding = []\<rparr>"
    by (simp add: flag_matches_def)
  then have "flag_matches (run es \<lparr>controller = c0, outstanding = []\<rparr>)"
    by (rule run_flag_matches)
  then show "isProcessing (controller (run es \<lparr>controller = c0, outstanding = []\<rparr>)) \<longleftrightarrow>
       outstanding (run es \<lparr>controller = c0, outstanding = []\<rparr>) \<noteq> []"
    by (simp add: flag_matches_def)
qed

theorem C9_flag_released_witness:
  "\<not> isProcessing idle_conversation \<and>
   \<not> isProcessing (snd (sendMessage relay_down idle_conversation hello)) \<and>
   fst (sendMessage relay_down idle_conversation hello) \<noteq> Rejected busy_error \<and>
   (isProcessing (controller (run [Submit quiet_host hello, Submit quiet_host hello]
        \<lparr>controller = idle_conversation, outstanding = []\<rparr>)) \<longleftrightarrow>
    outstanding (run [Submit quiet_host hello, Submit quiet_host hello]
        \<lparr>controller = idle_conversation, outstanding = []\<rparr>) \<noteq> [])"
proof -
  have idle: "\<not> isProcessing idle_conversation"
    by (simp add: idle_conversation_def)
  from idle
    C9_flag_released [of idle_conversation relay_down hello idle_conversation
      "[Submit quiet_host hello, Submit quiet_host hello]"]
  show ?thesis by simp
qed

section \<open>Properties of the avatar controller\<close>

lemma get_prop_Inr: "get_prop v k = Inr x \<Longrightarrow> v \<noteq> JUndefined \<and> v \<noteq> JNull"
  by (cases v) auto

lemma heygen_speak_idle:
  "\<not> isConnected s \<or> \<not> truthy (sessionId s) \<Longrightarrow> heygen_speak s input relay = (Resolved False, [])"
  by (auto simp: heygen_speak_def)

text \<open>
  A connected controller sends the one request. Then either the \<open>catch\<close> block is entered,
  after a failure of the request or after an exception of \<open>onSpeakingStart\<close> on a
  successful answer, or the call returns \<open>true\<close>.
\<close>

lemma heygen_speak_shape:
  assumes "isConnected s" "truthy (sessionId s)"
  shows "(\<exists>ev e. heygen_speak s input relay = heygen_caught s (SpeakRequest (sessionId s) input # ev) e \<and>
            (ev = [] \<and> \<not> relay_succeeds relay \<or>
             (\<exists>h. relay_succeeds relay \<and> onSpeakingStart s = Some h \<and> handler_raises h () = Some e \<and>
                  ev = [SpeakingStartCallback (handler_id h)]))) \<or>
         (relay_succeeds relay \<and>
          (\<forall>h. onSpeakingStart s = Some h \<longrightarrow> handler_raises h () = None) \<and>
          heygen_speak s input relay =
            (Resolved True,
             SpeakRequest (sessionId s) input #
             (case onSpeakingStart s of None \<Rightarrow> [] | Some h \<Rightarrow> [SpeakingStartCallback (handler_id h)])))"
  using assms
  by (cases relay)
     (auto simp: heygen_speak_def relay_succeeds_def get_prop_Inl Let_def
           dest: get_prop_Inr
           split: body.splits sum.splits option.splits)

text \<open>
  Claim C10, as amended: \<open>HeyGenController.speak\<close> throws only when the registered \<open>onError\<close>
  callback raises, and its promise then rejects with what \<open>onError\<close> raised, after the call
  of \<open>onError\<close>; with no \<open>onError\<close> registered, or one that returns, the promise resolves
  with a boolean, and it never stays pending. The call resolves with \<open>false\<close> and sends
  nothing when the avatar is not connected or has no session id. When it is connected and
  the relay request fails (the request itself, a response that is not 2xx, or a body that
  cannot be used), it sends the one request, calls \<open>onError\<close> if one is registered, and
  resolves with \<open>false\<close> if that call returns. It resolves with \<open>true\<close> exactly when it is
  connected, the relay answers with success and \<open>onSpeakingStart\<close>, if registered, returns,
  and then after the one request and the call of \<open>onSpeakingStart\<close>. When \<open>onSpeakingStart\<close>
  raises on a successful answer, its exception is handled like a failure of the request:
  \<open>onError\<close> is called with it, and the call resolves with \<open>false\<close> if \<open>onError\<close> returns.
\<close>

theorem C10_heygen_speak_outcome:
  "(\<not> isConnected s \<or> \<not> truthy (sessionId s) \<longrightarrow>
      heygen_speak s input relay = (Resolved False, [])) \<and>
   fst (heygen_speak s input relay) \<noteq> Pending \<and>
   (\<forall>raised. fst (heygen_speak s input relay) = Rejected raised \<longrightarrow>
      (\<exists>h e. onError s = Some h \<and> handler_raises h e = Some raised \<and>
             snd (heygen_speak s input relay) \<noteq> [] \<and>
             last (snd (heygen_speak s input relay)) = ErrorCallback (handler_id h) e)) \<and>
   ((\<forall>h e. onError s = Some h \<longrightarrow> handler_raises h e = None) \<longrightarrow>
      (\<exists>b. fst (heygen_speak s input relay) = Resolved b)) \<and>
   (isConnected s \<and> truthy (sessionId s) \<and> \<not> relay_succeeds relay \<longrightarrow>
      (\<exists>e. snd (heygen_speak s input relay) =
             SpeakRequest (sessionId s) input #
             (case onError s of None \<Rightarrow> [] | Some g \<Rightarrow> [ErrorCallback (handler_id g) e]) \<and>
           fst (heygen_speak s input relay) =
             (case onError s of
                None \<Rightarrow> Resolved False
              | Some g \<Rightarrow>
                  (case handler_raises g e of
                     None \<Rightarrow> Resolved False | Some raised \<Rightarrow> Rejected raised)))) \<and>
   (fst (heygen_speak s input relay) = Resolved True \<longleftrightarrow>
      isConnected s \<and> truthy (sessionId s) \<and> relay_succeeds relay \<and>
      (\<forall>h. onSpeakingStart s = Some h \<longrightarrow> handler_raises h () = None)) \<and>
   (fst (heygen_speak s input relay) = Resolved True \<longrightarrow>
      snd (heygen_speak s input relay) =
        SpeakRequest (sessionId s) input #
        (case onSpeakingStart s of None \<Rightarrow> [] | Some h \<Rightarrow> [SpeakingStartCallback (handler_id h)])) \<and>
   (\<forall>h e. isConnected s \<and> truthy (sessionId s) \<and> relay_succeeds relay \<and>
          onSpeakingStart s = Some h \<and> handler_raises h () = Some e \<longrightarrow>
      snd (heygen_speak s input relay) =
        SpeakRequest (sessionId s) input # SpeakingStartCallback (handler_id h) #
        (case onError s of None \<Rightarrow> [] | Some g \<Rightarrow> [ErrorCallback (handler_id g) e]) \<and>
      fst (heygen_speak s input relay) =
        (case onError s of
           None \<Rightarrow> Resolved False
         | Some g \<Rightarrow>
             (case handler_raises g e of
                None \<Rightarrow> Resolved False | Some raised \<Rightarrow> Rejected raised)))"
proof (cases "isConnected s \<and> truthy (sessionId s)")
  case False
  then have "heygen_speak s input relay = (Resolved False, [])"
    by (auto intro: heygen_speak_idle)
  with False show ?thesis by auto
next
  case True
  then have c: "isConnected s" "truthy (sessionId s)" by simp_all
  let ?req = "SpeakRequest (sessionId s) input"
  from heygen_speak_shape [OF c, of input relay]
  consider
    (failed) e where "heygen_speak s input relay = heygen_caught s [?req] e" "\<not> relay_succeeds relay"
  | (start_raised) h e where "heygen_speak s input relay =
        heygen_caught s [?req, SpeakingStartCallback (handler_id h)] e"
      "relay_succeeds relay" "onSpeakingStart s = Some h" "handler_raises h () = Some e"
  | (spoken) "relay_succeeds relay"
      "\<forall>h. onSpeakingStart s = Some h \<longrightarrow> handler_raises h () = None"
      "heygen_speak s input relay =
         (Resolved True,
          ?req # (case onSpeakingStart s of None \<Rightarrow> [] | Some h \<Rightarrow> [SpeakingStartCallback (handler_id h)]))"
    by auto
  then show ?thesis
  proof cases
    case failed
    with c show ?thesis
      by (auto simp: heygen_caught_def split: option.splits)
  next
    case start_raised
    with c show ?thesis
      by (auto simp: heygen_caught_def split: option.splits)
  next
    case spoken
    with c show ?thesis
      by (auto split: option.splits)
  qed
qed

theorem C10_heygen_speak_outcome_witness:
  "isConnected connected_avatar \<and> truthy (sessionId connected_avatar) \<and>
   relay_succeeds task_created \<and> \<not> relay_succeeds FetchFails \<and>
   heygen_speak connected_avatar hello task_created =
     (Resolved True, [SpeakRequest (sessionId connected_avatar) hello, SpeakingStartCallback 1]) \<and>
   (\<exists>e. heygen_speak connected_avatar hello FetchFails =
     (Resolved False, [SpeakRequest (sessionId connected_avatar) hello, ErrorCallback 2 e])) \<and>
   heygen_speak (connected_avatar\<lparr>isConnected := False\<rparr>) hello task_created = (Resolved False, []) \<and>
   (\<exists>e. heygen_speak fragile_avatar hello FetchFails =
     (Rejected handler_failure, [SpeakRequest (sessionId connected_avatar) hello, ErrorCallback 2 e])) \<and>
   heygen_speak startled_avatar hello task_created =
     (Resolved False,
      [SpeakRequest (sessionId connected_avatar) hello, SpeakingStartCallback 1,
       ErrorCallback 2 handler_failure])"
proof -
  have h: "isConnected connected_avatar" "truthy (sessionId connected_avatar)"
    "relay_succeeds task_created" "\<not> relay_succeeds FetchFails"
    "onSpeakingStart connected_avatar = Some \<lparr>handler_id = 1, handler_raises = (\<lambda>u. None)\<rparr>"
    "onError connected_avatar = Some \<lparr>handler_id = 2, handler_raises = (\<lambda>e. None)\<rparr>"
    by (simp_all add: connected_avatar_def relay_succeeds_def task_created_def of_ascii_def response_ok_def)
  have f: "isConnected fragile_avatar" "sessionId fragile_avatar = sessionId connected_avatar"
    "onError fragile_avatar = Some \<lparr>handler_id = 2, handler_raises = (\<lambda>e. Some handler_failure)\<rparr>"
    by (simp_all add: fragile_avatar_def h)
  have t: "isConnected startled_avatar" "sessionId startled_avatar = sessionId connected_avatar"
    "onError startled_avatar = onError connected_avatar"
    "onSpeakingStart startled_avatar = Some \<lparr>handler_id = 1, handler_raises = (\<lambda>u. Some handler_failure)\<rparr>"
    by (simp_all add: startled_avatar_def h)
  from h
    C10_heygen_speak_outcome [of connected_avatar hello task_created]
  have 1: "heygen_speak connected_avatar hello task_created =
     (Resolved True, [SpeakRequest (sessionId connected_avatar) hello, SpeakingStartCallback 1])"
    by (auto simp: prod_eq_iff)
  from h
    C10_heygen_speak_outcome [of connected_avatar hello FetchFails]
  have 2: "\<exists>e. heygen_speak connected_avatar hello FetchFails =
     (Resolved False, [SpeakRequest (sessionId connected_avatar) hello, ErrorCallback 2 e])"
    by (auto simp: prod_eq_iff)
  from h
    C10_heygen_speak_outcome [of "connected_avatar\<lparr>isConnected := False\<rparr>" hello task_created]
  have 3: "heygen_speak (connected_avatar\<lparr>isConnected := False\<rparr>) hello task_created = (Resolved False, [])"
    by (auto simp: prod_eq_iff)
  from h f
    C10_heygen_speak_outcome [of fragile_avatar hello FetchFails]
  have 4: "\<exists>e. heygen_speak fragile_avatar hello FetchFails =
     (Rejected handler_failure, [SpeakRequest (sessionId connected_avatar) hello, ErrorCallback 2 e])"
    by (auto simp: prod_eq_iff)
  from h t
    C10_heygen_speak_outcome [of startled_avatar hello task_created]
  have 5: "heygen_speak startled_avatar hello task_created =
     (Resolved False,
      [SpeakRequest (sessionId connected_avatar) hello, SpeakingStartCallback 1,
       ErrorCallback 2 handler_failure])"
    by (auto simp: prod_eq_iff)
  from h 1 2 3 4 5 show ?thesis by simp
qed

text \<open>
  The claim as stated fails on a connected controller whose \<open>onError\<close> raises: the relay
  cannot be reached, the \<open>catch\<close> block calls \<open>onError\<close> with the error of the request, and
  the exception that \<open>onError\<close> raises leaves \<open>speak\<close>, whose promise rejects.
\<close>

theorem C10_raising_onError_counterexample:
  "heygen_speak fragile_avatar hello FetchFails =
     (Rejected handler_failure,
      [SpeakRequest (JStr (of_ascii ''session-1'')) hello, ErrorCallback 2 NetworkError])"
  by (simp add: heygen_speak_def heygen_caught_def fragile_avatar_def connected_avatar_def of_ascii_def)


end
